theory Spec2Isabelle
  imports Complex_Main "HOL-Library.Word" "HOL-Library.Char_ord" "HOL-Library.List_Lexorder"
begin

section \<open>Failures\<close>

text \<open>
  The C++ exceptions the three demos raise or let through, as values. A function that can
  throw returns \<open>failure + 'a\<close> with \<open>Inl\<close> for the exception. \<open>OtherException\<close> stands
  for anything that is not derived from \<open>std::exception\<close> (the handler \<open>catch (...)\<close> of
  the entry point), \<open>Undefined\<close> for undefined behaviour (an out-of-range read through a raw
  pointer, a float-to-integer cast out of range): it is not an exception and no handler
  catches it.
\<close>

datatype failure =
    LogicError string
  | RuntimeError string
  | IEException string
  | CvException string
  | OtherException
  | Undefined

section \<open>Mask R-CNN demo: command line and entry point\<close>

text \<open>
  The gflags values \<open>ParseAndCheckCommandLine\<close> reads, after
  \<open>gflags::ParseCommandLineNonHelpFlags\<close> has filled them.
\<close>

record flags =
  FLAGS_h :: bool
  FLAGS_i :: string
  FLAGS_m :: string

text \<open>What the process writes: the usage text, the device list, a line on the error stream.\<close>

datatype printed = Usage | AvailableDevices | Err failure

text \<open>
  \<open>ParseAndCheckCommandLine\<close> (main.cpp, lines 28-46): with \<open>-h\<close> it prints the usage and
  the devices and returns false; an empty \<open>-i\<close> or \<open>-m\<close> throws \<open>std::logic_error\<close>;
  otherwise it returns true. The result is the printed output and the value or exception.
\<close>

definition ParseAndCheckCommandLine :: "flags \<Rightarrow> printed list \<times> (failure + bool)" where
  "ParseAndCheckCommandLine fl =
     (if FLAGS_h fl then ([Usage, AvailableDevices], Inr False)
      else if FLAGS_i fl = [] then ([], Inl (LogicError ''Parameter -i is not set''))
      else if FLAGS_m fl = [] then ([], Inl (LogicError ''Parameter -m is not set''))
      else ([], Inr True))"

text \<open>
  The two handlers of \<open>main\<close> (lines 274-281): every exception is written to the error
  stream and the process returns 1. Undefined behaviour is not caught: there is no exit
  code to speak of (\<open>None\<close>).
\<close>

definition handlers :: "failure \<Rightarrow> printed list \<times> int option" where
  "handlers e = (if e = Undefined then ([], None) else ([Err e], Some 1))"

text \<open>
  \<open>main\<close> (lines 48-284). \<open>body\<close> is the outcome of lines 57-272 (images, network,
  inference, decoding of the outputs), which runs only when the command line was accepted.
\<close>

definition main :: "flags \<Rightarrow> (failure + 'a) \<Rightarrow> printed list \<times> int option" where
  "main fl body =
     (case ParseAndCheckCommandLine fl of
        (out, Inl e) \<Rightarrow> (out @ fst (handlers e), snd (handlers e))
      | (out, Inr False) \<Rightarrow> (out, Some 0)
      | (out, Inr True) \<Rightarrow>
          (case body of
             Inl e \<Rightarrow> (out @ fst (handlers e), snd (handlers e))
           | Inr _ \<Rightarrow> (out, Some 0)))"

section \<open>Mask R-CNN demo: decoding the detection output\<close>

subsection \<open>Floats and machine integers\<close>

text \<open>
  The decoder reads \<open>float\<close> values and combines them with a multiplication, an addition,
  a subtraction, comparisons and casts. The float type \<open>'f\<close> and these operations are
  parameters of the model, so nothing proved below depends on how float32 rounds or on
  what a NaN does. A cast is \<open>None\<close> where C++ leaves it undefined (the value, truncated,
  does not fit the target type).
\<close>

record 'f float_ops =
  to_int :: "'f \<Rightarrow> int option"
  to_size_t :: "'f \<Rightarrow> nat option"
  of_int :: "int \<Rightarrow> 'f"
  fmul :: "'f \<Rightarrow> 'f \<Rightarrow> 'f"
  fadd :: "'f \<Rightarrow> 'f \<Rightarrow> 'f"
  fsub :: "'f \<Rightarrow> 'f \<Rightarrow> 'f"
  fless :: "'f \<Rightarrow> 'f \<Rightarrow> bool"
  f_0 :: 'f
  f_PROBABILITY_THRESHOLD :: 'f
  f_1e_6 :: 'f

text \<open>\<open>std::max\<close> and \<open>std::min\<close>, both defined through \<open><\<close> and returning the first
  argument when neither is smaller.\<close>

definition fmax :: "'f float_ops \<Rightarrow> 'f \<Rightarrow> 'f \<Rightarrow> 'f" where
  "fmax F a b = (if fless F a b then b else a)"

definition fmin :: "'f float_ops \<Rightarrow> 'f \<Rightarrow> 'f \<Rightarrow> 'f" where
  "fmin F a b = (if fless F b a then b else a)"

text \<open>
  Exact arithmetic on the reals in place of float32, with the casts truncating towards
  zero: the instance the examples are computed with.
\<close>

definition exact_ops :: "real float_ops" where
  "exact_ops =
     \<lparr>to_int = (\<lambda>x. if - 2147483649 < x \<and> x < 2147483648
                     then Some (if 0 \<le> x then \<lfloor>x\<rfloor> else - \<lfloor>- x\<rfloor>) else None),
      to_size_t = (\<lambda>x. if - 1 < x \<and> x < 18446744073709551616
                     then Some (nat \<lfloor>x\<rfloor>) else None),
      of_int = real_of_int,
      fmul = (*), fadd = (+), fsub = (-), fless = (<),
      f_0 = 0, f_PROBABILITY_THRESHOLD = 2 / 10, f_1e_6 = 1 / 1000000\<rparr>"

text \<open>\<open>size_t\<close> is 64 bits wide: a product or a difference wraps around.\<close>

definition size_t :: "nat \<Rightarrow> nat" where
  "size_t n = n mod 2 ^ 64"

definition size_t_sub :: "nat \<Rightarrow> nat \<Rightarrow> nat" where
  "size_t_sub a b = (a + 2 ^ 64 - b mod 2 ^ 64) mod 2 ^ 64"

text \<open>\<open>static_cast<int>\<close> of a \<open>size_t\<close>: the low 32 bits, read as two's complement.\<close>

definition size_t_to_int :: "nat \<Rightarrow> int" where
  "size_t_to_int n = sint (word_of_nat n :: 32 word)"

text \<open>Sequencing of computations that can fail.\<close>

definition bnd :: "failure + 'a \<Rightarrow> ('a \<Rightarrow> failure + 'b) \<Rightarrow> failure + 'b" where
  "bnd m k = (case m of Inl e \<Rightarrow> Inl e | Inr x \<Rightarrow> k x)"

definition defined :: "'a option \<Rightarrow> failure + 'a" where
  "defined v = (case v of None \<Rightarrow> Inl Undefined | Some x \<Rightarrow> Inr x)"

text \<open>A read through a raw pointer or an unchecked \<open>operator[]\<close>: undefined out of range.\<close>

definition rd :: "'a list \<Rightarrow> nat \<Rightarrow> failure + 'a" where
  "rd xs i = (if i < length xs then Inr (xs ! i) else Inl Undefined)"

subsection \<open>Tensors, images and overlays\<close>

text \<open>
  What the decoding loop of \<open>main\<close> (lines 192-263) reads: the detection-output tensor
  \<open>do_data\<close> with rows of \<open>BOX_DESCRIPTION_SIZE\<close> floats, the shape
  \<open>(BOXES, C, H, W)\<close> of the masks tensor, the batch size of the network, the input
  images (their width \<open>cols\<close> and height \<open>rows\<close>) and the palette
  \<open>CITYSCAPES_COLORS\<close>, which is declared outside the sources read here and is taken
  as a parameter.
\<close>

record image =
  cols :: int
  rows :: int

type_synonym color = "nat \<times> nat \<times> nat"

record 'f decoder_env =
  do_data :: "'f list"
  BOX_DESCRIPTION_SIZE :: nat
  BOXES :: nat
  masks_C :: nat
  masks_H :: nat
  masks_W :: nat
  netBatchSize :: nat
  images :: "image list"
  CITYSCAPES_COLORS :: "color list"

text \<open>
  One composited box: the image it is drawn on, its class, the index \<open>class_color\<close>
  gave the class, the palette entry used, the offset of its mask slab in the masks tensor
  and the rectangle \<open>(x, y, width, height)\<close>. The pixel work (\<open>cv::resize\<close>,
  \<open>copyTo\<close>, \<open>cv::addWeighted\<close>, \<open>cv::rectangle\<close>) is OpenCV's and is not modelled
  further.
\<close>

record overlay =
  ov_batch :: nat
  ov_class :: nat
  ov_color_index :: nat
  ov_color :: color
  ov_mask :: nat
  ov_roi :: "int \<times> int \<times> int \<times> int"

record dstate =
  class_color :: "(nat \<times> nat) list"
  overlays :: "overlay list"

text \<open>
  \<open>class_color.emplace(k, v).first->second\<close> on the \<open>std::map\<close>: the value already
  stored under \<open>k\<close>, or \<open>v\<close> after inserting it. The map is never iterated, so the
  order of the association list plays no role.
\<close>

definition emplace :: "nat \<Rightarrow> nat \<Rightarrow> (nat \<times> nat) list \<Rightarrow> (nat \<times> nat) list \<times> nat" where
  "emplace k v m = (case map_of m k of Some v' \<Rightarrow> (m, v') | None \<Rightarrow> (m @ [(k, v)], v))"

text \<open>
  The mask slab of a box and a class (lines 216 and 244):
  \<open>masks_data + box_stride * box + H * W * (class_id - 1)\<close> in \<open>size_t\<close> arithmetic. The
  pointer, and the \<open>H * W\<close> floats \<open>cv::resize\<close> reads from it, must lie inside the
  \<open>BOXES * C * H * W\<close> floats of the tensor; anything else is undefined.
\<close>

definition box_stride :: "'f decoder_env \<Rightarrow> nat" where
  "box_stride env = size_t (size_t (masks_W env * masks_H env) * masks_C env)"

definition mask_offset :: "'f decoder_env \<Rightarrow> nat \<Rightarrow> nat \<Rightarrow> nat" where
  "mask_offset env box class_id =
     size_t (box_stride env * box)
       + size_t (size_t (masks_H env * masks_W env) * size_t_sub class_id 1)"

definition mask_arr :: "'f decoder_env \<Rightarrow> nat \<Rightarrow> nat \<Rightarrow> failure + nat" where
  "mask_arr env box class_id =
     (if mask_offset env box class_id + masks_H env * masks_W env
           \<le> BOXES env * masks_C env * masks_H env * masks_W env
      then Inr (mask_offset env box class_id) else Inl Undefined)"

text \<open>
  \<open>output_images[batch](roi)\<close>: OpenCV asserts that the rectangle lies inside the image
  and throws otherwise.
\<close>

definition roi_of :: "image \<Rightarrow> int \<times> int \<times> int \<times> int \<Rightarrow> failure + unit" where
  "roi_of img r =
     (case r of (x, y, w, h) \<Rightarrow>
        if 0 \<le> x \<and> 0 \<le> w \<and> x + w \<le> cols img \<and> 0 \<le> y \<and> 0 \<le> h \<and> y + h \<le> rows img
        then Inr () else Inl (CvException ''roi''))"

subsection \<open>The loop over the boxes\<close>

text \<open>
  One iteration of the loop (lines 227-262) for row \<open>box\<close>: \<open>Inr None\<close> is the
  \<open>break\<close>, \<open>Inr (Some st)\<close> the state the next iteration starts from, \<open>Inl\<close> an
  exception or undefined behaviour.
\<close>

definition process_box ::
  "'f float_ops \<Rightarrow> 'f decoder_env \<Rightarrow> nat \<Rightarrow> dstate \<Rightarrow> failure + dstate option" where
  "process_box F env box st =
     (let box_info = (\<lambda>i. rd (do_data env) (box * BOX_DESCRIPTION_SIZE env + i)) in
      bnd (box_info 0) (\<lambda>b0. bnd (defined (to_int F b0)) (\<lambda>batch.
      if batch < 0 then Inr None
      else if batch \<ge> size_t_to_int (netBatchSize env)
      then Inl (LogicError ''Invalid batch ID within detection output box'')
      else
      bnd (box_info 2) (\<lambda>prob.
      bnd (rd (images env) (nat batch)) (\<lambda>img.
      bnd (box_info 3) (\<lambda>b3. bnd (box_info 4) (\<lambda>b4.
      bnd (box_info 5) (\<lambda>b5. bnd (box_info 6) (\<lambda>b6.
      let x1 = fmin F (fmax F (f_0 F) (fmul F b3 (of_int F (cols img)))) (of_int F (cols img));
          y1 = fmin F (fmax F (f_0 F) (fmul F b4 (of_int F (rows img)))) (of_int F (rows img));
          x2 = fmin F (fmax F (f_0 F) (fmul F b5 (of_int F (cols img)))) (of_int F (cols img));
          y2 = fmin F (fmax F (f_0 F) (fmul F b6 (of_int F (rows img)))) (of_int F (rows img))
      in
      bnd (defined (to_int F (fsub F x2 x1))) (\<lambda>box_width.
      bnd (defined (to_int F (fsub F y2 y1))) (\<lambda>box_height.
      bnd (box_info 1) (\<lambda>b1.
      bnd (defined (to_size_t F (fadd F b1 (f_1e_6 F)))) (\<lambda>class_id.
      if fless F (f_PROBABILITY_THRESHOLD F) prob \<and> box_width > 0 \<and> box_height > 0
      then
        (case emplace class_id (length (class_color st)) (class_color st) of
           (class_color', color_index) \<Rightarrow>
        bnd (mask_arr env box class_id) (\<lambda>mask.
        bnd (defined (to_int F x1)) (\<lambda>x. bnd (defined (to_int F y1)) (\<lambda>y.
        bnd (roi_of img (x, y, box_width, box_height)) (\<lambda>_.
        Inr (Some \<lparr>class_color = class_color',
                   overlays = overlays st @
                     [\<lparr>ov_batch = nat batch, ov_class = class_id,
                       ov_color_index = color_index,
                       ov_color = CITYSCAPES_COLORS env
                                    ! (color_index mod length (CITYSCAPES_COLORS env)),
                       ov_mask = mask,
                       ov_roi = (x, y, box_width, box_height)\<rparr>]\<rparr>))))))
      else Inr (Some st))))))))))))))"

text \<open>
  The loop \<open>for (size_t box = 0; box < BOXES; ++box)\<close>, with its bound as the argument
  \<open>n\<close>. It returns the exception that ended it, if any, the value of \<open>box\<close> on exit and
  the state reached: the overlays already drawn stay drawn when a later row throws.
\<close>

function boxes_loop ::
  "'f float_ops \<Rightarrow> 'f decoder_env \<Rightarrow> nat \<Rightarrow> nat \<Rightarrow> dstate \<Rightarrow> failure option \<times> nat \<times> dstate" where
  "boxes_loop F env n box st =
     (if box < n then
        (case process_box F env box st of
           Inl e \<Rightarrow> (Some e, box, st)
         | Inr None \<Rightarrow> (None, box, st)
         | Inr (Some st') \<Rightarrow> boxes_loop F env n (box + 1) st')
      else (None, box, st))"
  by pat_completeness auto
termination
  by (relation "measure (\<lambda>(F, env, n, box, st). n - box)") auto

definition decode :: "'f float_ops \<Rightarrow> 'f decoder_env \<Rightarrow> failure option \<times> nat \<times> dstate" where
  "decode F env = boxes_loop F env (BOXES env) 0 \<lparr>class_color = [], overlays = []\<rparr>"

text \<open>
  The value of \<open>batch\<close> in iteration \<open>box\<close> (lines 227-228): the first float of the row,
  cast to \<open>int\<close>.
\<close>

definition row_batch :: "'f float_ops \<Rightarrow> 'f decoder_env \<Rightarrow> nat \<Rightarrow> failure + int" where
  "row_batch F env box =
     bnd (rd (do_data env) (box * BOX_DESCRIPTION_SIZE env)) (\<lambda>b0. defined (to_int F b0))"

text \<open>
  Lines 192-263 as the enclosing \<open>try\<close> block of \<open>main\<close> sees them: the exception, or the
  state after the loop.
\<close>

definition postprocess :: "'f float_ops \<Rightarrow> 'f decoder_env \<Rightarrow> failure + dstate" where
  "postprocess F env =
     (case decode F env of (Some e, box, st) \<Rightarrow> Inl e | (None, box, st) \<Rightarrow> Inr st)"

subsection \<open>First-seen order of the classes\<close>

text \<open>
  The classes of the composited boxes, in the order the boxes were composited, and the
  rank of a class in that order: the number of distinct classes met before its first
  occurrence.
\<close>

definition classes :: "dstate \<Rightarrow> nat list" where
  "classes st = map ov_class (overlays st)"

definition first_seen :: "nat list \<Rightarrow> nat \<Rightarrow> nat" where
  "first_seen cls c = length (remdups (takeWhile (\<lambda>x. x \<noteq> c) cls))"

text \<open>
  The invariant of the loop on \<open>class_color\<close>: its keys are the classes composited so far,
  each mapped to its first-seen rank, its values are \<open>0, 1, 2, \<dots>\<close> in insertion order,
  and every overlay carries the index of its class and the palette entry at that index,
  taken modulo the size of the palette.
\<close>

definition color_inv :: "color list \<Rightarrow> dstate \<Rightarrow> bool" where
  "color_inv palette st \<longleftrightarrow>
     distinct (map fst (class_color st))
   \<and> map snd (class_color st) = [0..<length (class_color st)]
   \<and> set (map fst (class_color st)) = set (classes st)
   \<and> (\<forall>(c, i) \<in> set (class_color st). i = first_seen (classes st) c)
   \<and> (\<forall>ov \<in> set (overlays st).
         (ov_class ov, ov_color_index ov) \<in> set (class_color st)
       \<and> ov_color ov = palette ! (ov_color_index ov mod length palette))"

subsection \<open>Examples\<close>

text \<open>
  One image of 10 by 10 pixels, a palette of two colours and six rows: classes 5, 3, 5
  and 7 on the image, then a row with batch index -1, then a row whose batch index 3 does
  not exist.
\<close>

definition example_env :: "real decoder_env" where
  "example_env =
     \<lparr>do_data = [0, 5, 9 / 10, 0, 0, 1, 1,
                 0, 3, 9 / 10, 0, 0, 1 / 2, 1 / 2,
                 0, 5, 1 / 2, 1 / 2, 1 / 2, 1, 1,
                 0, 7, 9 / 10, 0, 0, 1, 1,
                 - 1, 0, 0, 0, 0, 0, 0,
                 3, 1, 9 / 10, 0, 0, 1, 1],
      BOX_DESCRIPTION_SIZE = 7, BOXES = 6, masks_C = 7, masks_H = 2, masks_W = 2,
      netBatchSize = 1, images = [\<lparr>cols = 10, rows = 10\<rparr>],
      CITYSCAPES_COLORS = [(128, 64, 128), (232, 35, 244)]\<rparr>"

text \<open>Two rows: a box of class 1 on the image, then a row with batch index 3.\<close>

definition example_invalid_batch :: "real decoder_env" where
  "example_invalid_batch =
     \<lparr>do_data = [0, 1, 9 / 10, 1 / 10, 1 / 10, 1 / 2, 1 / 2,
                 3, 1, 9 / 10, 0, 0, 1, 1],
      BOX_DESCRIPTION_SIZE = 7, BOXES = 2, masks_C = 2, masks_H = 2, masks_W = 2,
      netBatchSize = 1, images = [\<lparr>cols = 300, rows = 300\<rparr>],
      CITYSCAPES_COLORS = [(128, 64, 128), (232, 35, 244)]\<rparr>"

section \<open>Smart classroom demo: loading a network\<close>

text \<open>
  What \<open>CnnDLSDKBase::Load\<close> (cnn.cpp, lines 18-49) sees of a network: its batch size and
  its inputs and outputs, each a \<open>std::map\<close> from the tensor's name to its precision and
  layout, listed in the order of the keys.
\<close>

datatype precision = U8 | FP32 | UNSPECIFIED

datatype layout = NCHW | ANY

record data_info =
  precision :: precision
  layout :: layout

record network =
  batchSize :: nat
  inputsInfo :: "(string \<times> data_info) list"
  outputsInfo :: "(string \<times> data_info) list"

text \<open>
  The inference engine, \<open>InferenceEngine::Core\<close>, is not part of the repository: its three
  calls are parameters. Each can throw.
\<close>

record ('exec, 'req) Core =
  ReadNetwork :: "string \<Rightarrow> failure + network"
  LoadNetwork :: "network \<Rightarrow> string \<Rightarrow> (string \<times> string) list \<Rightarrow> failure + 'exec"
  CreateInferRequest :: "'exec \<Rightarrow> failure + 'req"

text \<open>
  \<open>CnnConfig\<close> is declared in \<open>cnn.hpp\<close>, outside the sources read here: the fields
  are those \<open>cnn.cpp\<close> uses, \<open>max_batch_size\<close> an \<open>int\<close> as line 23 compares it.
\<close>

record ('exec, 'req) CnnConfig =
  path_to_model :: string
  model_type :: string
  max_batch_size :: int
  ie :: "('exec, 'req) Core"
  deviceName :: string

text \<open>The members of \<open>CnnDLSDKBase\<close>, named without their trailing underscore.\<close>

record ('exec, 'req) CnnDLSDKBase =
  config :: "('exec, 'req) CnnConfig"
  input_blob_name :: string
  output_blobs_names :: "string list"
  executable_network :: "'exec option"
  infer_request :: "'req option"

definition setBatchSize :: "nat \<Rightarrow> network \<Rightarrow> network" where
  "setBatchSize n net = net\<lparr>batchSize := n\<rparr>"

text \<open>The conversion of an \<open>int\<close> to \<open>size_t\<close>, as in \<open>setBatchSize(config_.max_batch_size)\<close>.\<close>

definition int_to_size_t :: "int \<Rightarrow> nat" where
  "int_to_size_t x = nat (x mod 2 ^ 64)"

definition KEY_DYN_BATCH_ENABLED :: string where
  "KEY_DYN_BATCH_ENABLED = ''DYN_BATCH_ENABLED''"

definition NO :: string where
  "NO = ''NO''"

text \<open>
  Lines 40-46: the network is loaded to the device; an \<open>InferenceEngine::Exception\<close> of
  this first attempt (and no other exception) is caught, the batch size set to 1 and the
  network loaded again with dynamic batching switched off. An exception of the second
  attempt is not caught.
\<close>

definition load_with_fallback ::
  "('exec, 'req) Core \<Rightarrow> network \<Rightarrow> string \<Rightarrow> failure + 'exec" where
  "load_with_fallback core cnnNetwork device =
     (case LoadNetwork core cnnNetwork device [] of
        Inl (IEException msg) \<Rightarrow>
          LoadNetwork core (setBatchSize 1 cnnNetwork) device [(KEY_DYN_BATCH_ENABLED, NO)]
      | r \<Rightarrow> r)"

text \<open>
  Lines 22-24: the batch size of the network is set to the configured one unless, read
  as an \<open>int\<close>, it already equals it.
\<close>

definition with_max_batch_size :: "int \<Rightarrow> network \<Rightarrow> network" where
  "with_max_batch_size n cnnNetwork =
     (let currentBatchSize = size_t_to_int (batchSize cnnNetwork) in
      if currentBatchSize \<noteq> n then setBatchSize (int_to_size_t n) cnnNetwork
      else cnnNetwork)"

text \<open>
  Lines 30-31 and 34-36: the first input gets precision U8 and layout NCHW, every output
  precision FP32.
\<close>

definition with_precisions :: "network \<Rightarrow> network" where
  "with_precisions cnnNetwork =
     cnnNetwork
       \<lparr>inputsInfo :=
          (case inputsInfo cnnNetwork of
             [] \<Rightarrow> []
           | item # rest \<Rightarrow> (fst item, (snd item)\<lparr>precision := U8, layout := NCHW\<rparr>) # rest),
        outputsInfo :=
          map (\<lambda>item. (fst item, (snd item)\<lparr>precision := FP32\<rparr>)) (outputsInfo cnnNetwork)\<rparr>"

text \<open>
  \<open>Load\<close> changes the members of the object as it goes and may throw in between: the
  result is the exception, if any, and the object as it is left. The log line of
  \<open>logExecNetworkInfo\<close> is not modelled.
\<close>

definition Load ::
  "('exec, 'req) CnnDLSDKBase \<Rightarrow> failure option \<times> ('exec, 'req) CnnDLSDKBase" where
  "Load this =
     (let cfg = config this in
      case ReadNetwork (ie cfg) (path_to_model cfg) of
        Inl e \<Rightarrow> (Some e, this)
      | Inr cnnNetwork0 \<Rightarrow>
     (let cnnNetwork1 = with_max_batch_size (max_batch_size cfg) cnnNetwork0;
          inp = inputsInfo cnnNetwork1
      in
      if length inp \<noteq> 1
      then (Some (RuntimeError ''Network should have only one input''), this)
      else
     (let this1 = this\<lparr>input_blob_name := fst (hd inp)\<rparr>;
          cnnNetwork2 = with_precisions cnnNetwork1;
          this2 = this1\<lparr>output_blobs_names :=
                    output_blobs_names this1 @ map fst (outputsInfo cnnNetwork1)\<rparr>
      in
      case load_with_fallback (ie cfg) cnnNetwork2 (deviceName cfg) of
        Inl e \<Rightarrow> (Some e, this2)
      | Inr exec \<Rightarrow>
     (let this3 = this2\<lparr>executable_network := Some exec\<rparr> in
      case CreateInferRequest (ie cfg) exec of
        Inl e \<Rightarrow> (Some e, this3)
      | Inr request \<Rightarrow> (None, this3\<lparr>infer_request := Some request\<rparr>)))))"

text \<open>
  The constructor of \<open>VectorCNN\<close> (lines 81-87): an exception of \<open>Load\<close> or of the check
  on the outputs leaves no object behind.
\<close>

definition VectorCNN ::
  "('exec, 'req) CnnConfig \<Rightarrow> failure + ('exec, 'req) CnnDLSDKBase" where
  "VectorCNN cfg =
     (case Load \<lparr>config = cfg, input_blob_name = [], output_blobs_names = [],
                 executable_network = None, infer_request = None\<rparr> of
        (Some e, this) \<Rightarrow> Inl e
      | (None, this) \<Rightarrow>
          if length (output_blobs_names this) \<noteq> 1
          then Inl (RuntimeError ''Demo supports topologies only with 1 output'')
          else Inr this)"

subsection \<open>Examples\<close>

text \<open>
  A device without dynamic batching: a network is loaded only with batch size 1 and
  dynamic batching switched off. The model file describes a network with one input and
  one output.
\<close>

definition example_core :: "(string, nat) Core" where
  "example_core =
     \<lparr>ReadNetwork = (\<lambda>path. Inr \<lparr>batchSize = 1,
          inputsInfo = [(''data'', \<lparr>precision = UNSPECIFIED, layout = ANY\<rparr>)],
          outputsInfo = [(''fc'', \<lparr>precision = UNSPECIFIED, layout = ANY\<rparr>)]\<rparr>),
      LoadNetwork = (\<lambda>cnnNetwork device cfg.
          if cfg = [(KEY_DYN_BATCH_ENABLED, NO)] \<and> batchSize cnnNetwork = 1
          then Inr ''executable'' else Inl (IEException ''dynamic batch is not supported'')),
      CreateInferRequest = (\<lambda>exec. Inr 0)\<rparr>"

text \<open>The same device and a model file with two inputs.\<close>

definition example_core_two_inputs :: "(string, nat) Core" where
  "example_core_two_inputs =
     example_core\<lparr>ReadNetwork := (\<lambda>path. Inr \<lparr>batchSize = 1,
          inputsInfo = [(''data'', \<lparr>precision = UNSPECIFIED, layout = ANY\<rparr>),
                        (''im_info'', \<lparr>precision = UNSPECIFIED, layout = ANY\<rparr>)],
          outputsInfo = [(''fc'', \<lparr>precision = UNSPECIFIED, layout = ANY\<rparr>)]\<rparr>)\<rparr>"

definition example_object :: "(string, nat) Core \<Rightarrow> (string, nat) CnnDLSDKBase" where
  "example_object core =
     \<lparr>config = \<lparr>path_to_model = ''model.xml'', model_type = ''Face Re-Identification'',
                 max_batch_size = 16, ie = core, deviceName = ''CPU''\<rparr>,
      input_blob_name = [], output_blobs_names = [],
      executable_network = None, infer_request = None\<rparr>"

section \<open>Smart classroom demo: batched inference\<close>

subsection \<open>The inference request\<close>

text \<open>
  The inference request of the engine, as far as \<open>InferBatch\<close> touches it: the input
  blob, one slot per index of the batch dimension, holding the frame last copied there;
  the active batch size; the output blobs by name; and the calls made on it, in order. An
  \<open>Infer\<close> is logged with the active batch size it ran under.
\<close>

datatype 'fr call =
    Call_matToBlob 'fr nat
  | Call_SetBatch nat
  | Call_Infer nat

record ('fr, 'b) InferRequest =
  input :: "'fr option list"
  cur_batch :: nat
  outputs :: "string \<Rightarrow> 'b"
  calls :: "'fr call list"

text \<open>
  Modelled from the spec: \<open>matToBlob\<close> is declared in \<open>utils/ocv_common.hpp\<close>, outside
  the sources read here. Section 4.2, step 2: it copies an image into its slot of the
  input tensor buffer.
\<close>

definition matToBlob ::
  "'fr \<Rightarrow> nat \<Rightarrow> ('fr, 'b) InferRequest \<Rightarrow> ('fr, 'b) InferRequest" where
  "matToBlob frame b req =
     req\<lparr>input := (input req)[b := Some frame], calls := calls req @ [Call_matToBlob frame b]\<rparr>"

text \<open>
  The calls of the engine on a request. \<open>SetBatch\<close> sets the active batch size and leaves
  the blobs as they are. \<open>Infer\<close> runs the network, the parameter \<open>net\<close>: from the input
  blob and the active batch size to the output blobs. \<open>GetBlob\<close> hands out an output
  blob.
\<close>

definition SetBatch :: "nat \<Rightarrow> ('fr, 'b) InferRequest \<Rightarrow> ('fr, 'b) InferRequest" where
  "SetBatch n req = req\<lparr>cur_batch := n, calls := calls req @ [Call_SetBatch n]\<rparr>"

definition Infer ::
  "('fr option list \<Rightarrow> nat \<Rightarrow> string \<Rightarrow> 'b) \<Rightarrow> ('fr, 'b) InferRequest \<Rightarrow> ('fr, 'b) InferRequest" where
  "Infer net req =
     req\<lparr>outputs := net (input req) (cur_batch req),
         calls := calls req @ [Call_Infer (cur_batch req)]\<rparr>"

definition GetBlob :: "('fr, 'b) InferRequest \<Rightarrow> string \<Rightarrow> 'b" where
  "GetBlob req name = outputs req name"

text \<open>
  \<open>InferenceEngine::BlobMap\<close> is a \<open>std::map\<close> from names to blobs: an association
  list kept in the order of its keys. \<open>blobs[name] = blob\<close> replaces the entry of the name
  or inserts one at its place.
\<close>

type_synonym 'b BlobMap = "(string \<times> 'b) list"

fun map_assign :: "string \<Rightarrow> 'b \<Rightarrow> 'b BlobMap \<Rightarrow> 'b BlobMap" where
  "map_assign k v [] = [(k, v)]"
| "map_assign k v ((k', v') # m) =
     (if k < k' then (k, v) # (k', v') # m
      else if k = k' then (k, v) # m
      else (k', v') # map_assign k v m)"

subsection \<open>InferBatch\<close>

text \<open>
  The inner loop (cnn.cpp, lines 60-62): the frames \<open>batch_i, \<dots>\<close> go to the slots
  \<open>0, \<dots>, current_batch_size - 1\<close>. The index \<open>batch_i + b\<close> is below
  \<open>frames.size()\<close> by the choice of \<open>current_batch_size\<close>.
\<close>

definition fill_input ::
  "'fr list \<Rightarrow> nat \<Rightarrow> nat \<Rightarrow> ('fr, 'b) InferRequest \<Rightarrow> ('fr, 'b) InferRequest" where
  "fill_input frames batch_i current_batch_size req =
     foldl (\<lambda>r b. matToBlob (frames ! (batch_i + b)) b r) req [0..<current_batch_size]"

text \<open>Lines 68-71: the output blobs, by name.\<close>

definition collect_blobs :: "string list \<Rightarrow> ('fr, 'b) InferRequest \<Rightarrow> 'b BlobMap" where
  "collect_blobs names req =
     foldl (\<lambda>blobs name. map_assign name (GetBlob req name) blobs) [] names"

text \<open>
  The body of the outer loop (lines 59-72) at \<open>batch_i\<close>. \<open>fetch_results\<close> is the
  callback: it gets the blobs and the size of the chunk, works on a state \<open>'s\<close> of its
  own (what it captured) and may throw.
\<close>

definition batch_body ::
  "int \<Rightarrow> ('fr option list \<Rightarrow> nat \<Rightarrow> string \<Rightarrow> 'b) \<Rightarrow> string list \<Rightarrow> 'fr list
   \<Rightarrow> ('b BlobMap \<Rightarrow> nat \<Rightarrow> 's \<Rightarrow> failure + 's) \<Rightarrow> nat \<Rightarrow> nat
   \<Rightarrow> ('fr, 'b) InferRequest \<times> 's \<Rightarrow> failure + ('fr, 'b) InferRequest \<times> 's" where
  "batch_body max_batch net names frames fetch_results batch_size batch_i rs =
     (let current_batch_size = min batch_size (length frames - batch_i);
          req1 = fill_input frames batch_i current_batch_size (fst rs);
          req2 = (if max_batch \<noteq> 1 then SetBatch current_batch_size req1 else req1);
          req3 = Infer net req2;
          blobs = collect_blobs names req3
      in case fetch_results blobs current_batch_size (snd rs) of
           Inl e \<Rightarrow> Inl e
         | Inr s' \<Rightarrow> Inr (req3, s'))"

text \<open>
  The outer loop (line 58), \<open>batch_i += batch_size\<close> in \<open>size_t\<close> arithmetic. With a
  batch size of zero it does not terminate: the result is an option, \<open>None\<close> when the loop
  runs forever.
\<close>

partial_function (option) batch_loop ::
  "int \<Rightarrow> ('fr option list \<Rightarrow> nat \<Rightarrow> string \<Rightarrow> 'b) \<Rightarrow> string list \<Rightarrow> 'fr list
   \<Rightarrow> ('b BlobMap \<Rightarrow> nat \<Rightarrow> 's \<Rightarrow> failure + 's) \<Rightarrow> nat \<Rightarrow> nat
   \<Rightarrow> ('fr, 'b) InferRequest \<times> 's \<Rightarrow> (failure + ('fr, 'b) InferRequest \<times> 's) option" where
  "batch_loop max_batch net names frames fetch_results batch_size batch_i rs =
     (if batch_i < length frames then
        (case batch_body max_batch net names frames fetch_results batch_size batch_i rs of
           Inl e \<Rightarrow> Some (Inl e)
         | Inr rs' \<Rightarrow>
             batch_loop max_batch net names frames fetch_results batch_size
               (size_t (batch_i + batch_size)) rs')
      else Some (Inr rs))"

text \<open>
  \<open>CnnDLSDKBase::InferBatch\<close> (lines 51-74). Of the object it reads
  \<open>config_.max_batch_size\<close>, the names of the output blobs and the inference request; the
  batch size is the first dimension of the input blob.
\<close>

definition InferBatch ::
  "int \<Rightarrow> ('fr option list \<Rightarrow> nat \<Rightarrow> string \<Rightarrow> 'b) \<Rightarrow> string list \<Rightarrow> 'fr list
   \<Rightarrow> ('b BlobMap \<Rightarrow> nat \<Rightarrow> 's \<Rightarrow> failure + 's)
   \<Rightarrow> ('fr, 'b) InferRequest \<times> 's \<Rightarrow> (failure + ('fr, 'b) InferRequest \<times> 's) option" where
  "InferBatch max_batch net names frames fetch_results rs =
     batch_loop max_batch net names frames fetch_results (length (input (fst rs))) 0 rs"

subsection \<open>Chunks\<close>

text \<open>The consecutive chunks of a list, each of \<open>n\<close> elements but the last, which may be shorter.\<close>

function chunks :: "nat \<Rightarrow> 'a list \<Rightarrow> 'a list list" where
  "chunks n xs = (if n = 0 \<or> xs = [] then [] else take n xs # chunks n (drop n xs))"
  by pat_completeness auto
termination
  by (relation "measure (\<lambda>(n, xs). length xs)") auto

declare chunks.simps [simp del]

text \<open>
  What the request undergoes for one chunk: its frames are copied to the slots
  \<open>0, 1, \<dots>\<close> in order, the active batch size is set to the size of the chunk where
  \<open>max_batch_size\<close> is not 1, and one inference runs.
\<close>

definition chunk_request ::
  "int \<Rightarrow> ('fr option list \<Rightarrow> nat \<Rightarrow> string \<Rightarrow> 'b) \<Rightarrow> 'fr list
   \<Rightarrow> ('fr, 'b) InferRequest \<Rightarrow> ('fr, 'b) InferRequest" where
  "chunk_request max_batch net chunk req =
     (let req1 = foldl (\<lambda>r (frame, b). matToBlob frame b r) req (zip chunk [0..<length chunk]);
          req2 = (if max_batch \<noteq> 1 then SetBatch (length chunk) req1 else req1)
      in Infer net req2)"

text \<open>
  The algorithm of section 4.2 of the specification, on the chunks one after the other:
  for each, the request is worked as above and the callback is invoked once, with the
  output blobs of that inference and the size of the chunk. An exception of the callback
  ends the run.
\<close>

fun run_chunks ::
  "int \<Rightarrow> ('fr option list \<Rightarrow> nat \<Rightarrow> string \<Rightarrow> 'b) \<Rightarrow> string list
   \<Rightarrow> ('b BlobMap \<Rightarrow> nat \<Rightarrow> 's \<Rightarrow> failure + 's) \<Rightarrow> 'fr list list
   \<Rightarrow> ('fr, 'b) InferRequest \<times> 's \<Rightarrow> failure + ('fr, 'b) InferRequest \<times> 's" where
  "run_chunks max_batch net names fetch_results [] rs = Inr rs"
| "run_chunks max_batch net names fetch_results (chunk # rest) rs =
     (let req' = chunk_request max_batch net chunk (fst rs) in
      case fetch_results (collect_blobs names req') (length chunk) (snd rs) of
        Inl e \<Rightarrow> Inl e
      | Inr s' \<Rightarrow> run_chunks max_batch net names fetch_results rest (req', s'))"

text \<open>
  The calls one chunk causes: a copy per frame, to the slots \<open>0, 1, \<dots>\<close>; then, where
  \<open>max_batch_size\<close> is not 1, \<open>SetBatch\<close> with the size of the chunk and the inference
  under it; else the inference under the active batch size \<open>n\<close> found.
\<close>

definition chunk_calls :: "int \<Rightarrow> nat \<Rightarrow> 'fr list \<Rightarrow> 'fr call list" where
  "chunk_calls max_batch n chunk =
     map (\<lambda>(frame, b). Call_matToBlob frame b) (zip chunk [0..<length chunk])
     @ (if max_batch \<noteq> 1 then [Call_SetBatch (length chunk), Call_Infer (length chunk)]
        else [Call_Infer n])"

text \<open>A callback that only records what it is invoked with.\<close>

definition record_results ::
  "'b BlobMap \<Rightarrow> nat \<Rightarrow> ('b BlobMap \<times> nat) list \<Rightarrow> failure + ('b BlobMap \<times> nat) list" where
  "record_results blobs n seen = Inr (seen @ [(blobs, n)])"

text \<open>The active batch sizes of the inferences among some calls, in order.\<close>

fun infer_batches :: "'fr call list \<Rightarrow> nat list" where
  "infer_batches [] = []"
| "infer_batches (Call_Infer n # cs) = n # infer_batches cs"
| "infer_batches (c # cs) = infer_batches cs"

section \<open>Smart classroom demo: embedding vectors\<close>

text \<open>
  An output blob: its dimensions and the floats of its buffer. The floats are only moved
  around, so their type is left open. A \<open>cv::Mat\<close> with its elements: the header of an
  image, \<open>cols\<close> and \<open>rows\<close>, and the data.
\<close>

record 'a blob =
  dims :: "nat list"
  buffer :: "'a list"

record 'a mat = image +
  data :: "'a list"

text \<open>
  Modelled from the spec: \<open>cv::Mat::reshape\<close> is OpenCV's, outside the sources read
  here. Section 8, property 5: requesting a reshape to \<open>(h, w)\<close> where \<open>h * w\<close> is not
  the number of elements must fail, not silently truncate. Otherwise the matrix gets the
  new shape and keeps its elements.
\<close>

definition reshape :: "'a mat \<Rightarrow> int \<times> int \<Rightarrow> failure + 'a mat" where
  "reshape m newshape =
     (case newshape of (h, w) \<Rightarrow>
        if h * w = rows m * cols m then Inr (m\<lparr>rows := h, cols := w\<rparr>)
        else Inl (CvException ''reshape''))"

text \<open>
  Lines 117-122 for one index \<open>b\<close> of the batch: \<open>blob_wrapper\<close> is a column of
  \<open>out_blob.size[1]\<close> floats starting at float \<open>b * out_blob.size[1]\<close> of the buffer
  (reading past the buffer is undefined); it is reshaped unless \<open>outp_shape\<close>, a
  \<open>cv::Size\<close> given as \<open>(width, height)\<close>, is the default \<open>cv::Size()\<close>; the result is
  what \<open>copyTo\<close> stores in the new element of \<open>vectors\<close>.
\<close>

definition blob_wrapper :: "int \<times> int \<Rightarrow> 'a blob \<Rightarrow> nat \<Rightarrow> nat \<Rightarrow> failure + 'a mat" where
  "blob_wrapper outp_shape blob size1 b =
     (if b * size1 + size1 \<le> length (buffer blob)
      then
        (let wrapper = \<lparr>cols = 1, rows = int size1,
                        data = take size1 (drop (b * size1) (buffer blob))\<rparr>
         in if outp_shape \<noteq> (0, 0)
            then reshape wrapper (snd outp_shape, fst outp_shape)
            else Inr wrapper)
      else Inl Undefined)"

text \<open>The loop over \<open>b\<close> (line 116): an exception ends it.\<close>

definition blob_vectors ::
  "int \<times> int \<Rightarrow> 'a blob \<Rightarrow> nat \<Rightarrow> nat \<Rightarrow> 'a mat list \<Rightarrow> failure + 'a mat list" where
  "blob_vectors outp_shape blob size1 batch_size vectors =
     foldl (\<lambda>acc b. bnd acc (\<lambda>vs. bnd (blob_wrapper outp_shape blob size1 b)
                                      (\<lambda>v. Inr (vs @ [v]))))
       (Inr vectors) [0..<batch_size]"

text \<open>
  The callback \<open>results_fetcher\<close> of \<open>VectorCNN::Compute\<close> (lines 102-125), on the
  vectors collected so far. A null blob is \<open>None\<close>. \<open>out_blob.size[1]\<close> is the second
  dimension of the blob; a blob with fewer than two dimensions is not modelled further.
\<close>

fun results_fetcher ::
  "int \<times> int \<Rightarrow> 'a blob option BlobMap \<Rightarrow> nat \<Rightarrow> 'a mat list \<Rightarrow> failure + 'a mat list" where
  "results_fetcher outp_shape [] batch_size vectors = Inr vectors"
| "results_fetcher outp_shape (item # rest) batch_size vectors =
     (case snd item of
        None \<Rightarrow>
          Inl (RuntimeError
                (''VectorCNN::Compute() Invalid blob '' @ [CHR 0x27] @ fst item @ [CHR 0x27]))
      | Some blob \<Rightarrow>
          if length (dims blob) < 2 then Inl Undefined
          else bnd (blob_vectors outp_shape blob (dims blob ! 1) batch_size vectors)
                 (results_fetcher outp_shape rest batch_size))"

text \<open>
  \<open>VectorCNN::Compute\<close> on a list of images \<open>imgs\<close> (lines 96-127): nothing happens
  for an empty list; otherwise \<open>vectors\<close> is cleared and filled by the callback.
\<close>

definition Compute ::
  "int \<Rightarrow> ('fr option list \<Rightarrow> nat \<Rightarrow> string \<Rightarrow> 'a blob option) \<Rightarrow> string list \<Rightarrow> 'fr list
   \<Rightarrow> int \<times> int \<Rightarrow> ('fr, 'a blob option) InferRequest \<times> 'a mat list
   \<Rightarrow> (failure + ('fr, 'a blob option) InferRequest \<times> 'a mat list) option" where
  "Compute max_batch net names imgs outp_shape rs =
     (if imgs = [] then Some (Inr rs)
      else InferBatch max_batch net names imgs (results_fetcher outp_shape) (fst rs, []))"

subsection \<open>Examples\<close>

text \<open>
  A request with a batch of two and a network whose output is the part of the input blob
  the active batch size covers; frames are numbers.
\<close>

definition example_net :: "nat option list \<Rightarrow> nat \<Rightarrow> string \<Rightarrow> nat option list" where
  "example_net inp n name = take n inp"

definition example_request :: "(nat, nat option list) InferRequest" where
  "example_request = \<lparr>input = [None, None], cur_batch = 2, outputs = (\<lambda>name. []), calls = []\<rparr>"



section \<open>Command line: results\<close>

text \<open>
  C9 as stated fails: with \<open>-i\<close> missing (and no \<open>-h\<close>) the entry point does not print the
  usage and does not exit with code 0; the \<open>std::logic_error\<close> is caught by the handler for
  \<open>std::exception\<close>, logged, and the exit code is 1.
\<close>

theorem C9_missing_i_counterexample:
  "main \<lparr>FLAGS_h = False, FLAGS_i = '''', FLAGS_m = ''model.xml''\<rparr> (Inr ())
     = ([Err (LogicError ''Parameter -i is not set'')], Some 1)
   \<and> \<not> (snd (main \<lparr>FLAGS_h = False, FLAGS_i = '''', FLAGS_m = ''model.xml''\<rparr> (Inr ())) = Some 0
          \<and> Usage \<in> set (fst (main \<lparr>FLAGS_h = False, FLAGS_i = '''', FLAGS_m = ''model.xml''\<rparr> (Inr ()))))"
  by (simp add: main_def ParseAndCheckCommandLine_def handlers_def)

text \<open>
  C9, amended: the usage is printed and the exit code is 0 exactly for \<open>-h\<close>. Without
  \<open>-h\<close>, a missing \<open>-i\<close> or \<open>-m\<close> is a \<open>std::logic_error\<close> that the entry point catches and
  logs, the usage is not printed, the rest of \<open>main\<close> does not run (its outcome \<open>body\<close> is
  irrelevant) and the exit code is 1.
\<close>

theorem C9_command_line_exit_codes:
  "main fl body =
     (if FLAGS_h fl then ([Usage, AvailableDevices], Some 0)
      else if FLAGS_i fl = [] then ([Err (LogicError ''Parameter -i is not set'')], Some 1)
      else if FLAGS_m fl = [] then ([Err (LogicError ''Parameter -m is not set'')], Some 1)
      else (case body of Inl e \<Rightarrow> handlers e | Inr _ \<Rightarrow> ([], Some 0)))"
  by (simp add: main_def ParseAndCheckCommandLine_def handlers_def split: sum.split)


section \<open>Decoder: results\<close>

subsection \<open>One row\<close>

lemma process_box_break:
  "row_batch F env box = Inr b \<Longrightarrow> b < 0 \<Longrightarrow> process_box F env box st = Inr None"
  by (auto simp: row_batch_def process_box_def bnd_def split: sum.splits)

lemma process_box_invalid_batch:
  "row_batch F env box = Inr b \<Longrightarrow> 0 \<le> b \<Longrightarrow> size_t_to_int (netBatchSize env) \<le> b \<Longrightarrow>
   process_box F env box st = Inl (LogicError ''Invalid batch ID within detection output box'')"
  by (auto simp: row_batch_def process_box_def bnd_def split: sum.splits)

lemma size_t_to_int_small: "n < 2 ^ 31 \<Longrightarrow> size_t_to_int n = int n"
proof -
  assume "n < 2 ^ 31"
  then have "int n < 2 ^ 31" by (metis of_nat_less_iff of_nat_numeral of_nat_power)
  then have "signed_take_bit 31 (int n) = int n"
    by (intro signed_take_bit_int_eq_self) auto
  then show ?thesis
    by (simp add: size_t_to_int_def signed_of_nat)
qed

lemma rd_take_eq:
  "take n xs = take n ys \<Longrightarrow> i < n \<Longrightarrow> rd xs i = rd ys i"
proof -
  assume eq: "take n xs = take n ys" and i: "i < n"
  have len: "min n (length xs) = min n (length ys)"
    using arg_cong [OF eq, of length] by simp
  have "i < length xs \<longleftrightarrow> i < length ys" using len i by linarith
  moreover have "i < length xs \<Longrightarrow> xs ! i = ys ! i"
    using i eq by (metis nth_take)
  ultimately show ?thesis by (simp add: rd_def)
qed

lemma process_box_same_row:
  assumes "\<And>i. i < 7 \<Longrightarrow> rd D' (box * BOX_DESCRIPTION_SIZE env + i) = rd (do_data env) (box * BOX_DESCRIPTION_SIZE env + i)"
  shows "process_box F (env\<lparr>do_data := D'\<rparr>) box st = process_box F env box st"
  using assms [of 0] assms [of 1] assms [of 2] assms [of 3] assms [of 4] assms [of 5] assms [of 6]
  by (simp add: process_box_def mask_arr_def mask_offset_def box_stride_def cong: if_cong)

lemma process_box_Some:
  assumes "process_box F env box st = Inr (Some st')"
  shows "st' = st \<or>
    (\<exists>batch class_id mask roi.
        row_batch F env box = Inr batch \<and> 0 \<le> batch \<and> batch < size_t_to_int (netBatchSize env)
      \<and> nat batch < length (images env)
      \<and> mask_arr env box class_id = Inr mask
      \<and> st' = \<lparr>class_color = fst (emplace class_id (length (class_color st)) (class_color st)),
               overlays = overlays st @
                 [\<lparr>ov_batch = nat batch, ov_class = class_id,
                   ov_color_index = snd (emplace class_id (length (class_color st)) (class_color st)),
                   ov_color = CITYSCAPES_COLORS env
                      ! (snd (emplace class_id (length (class_color st)) (class_color st))
                           mod length (CITYSCAPES_COLORS env)),
                   ov_mask = mask, ov_roi = roi\<rparr>]\<rparr>)"
  using assms
  by (auto simp: process_box_def row_batch_def bnd_def rd_def Let_def
      split: sum.splits if_splits prod.splits)

subsection \<open>The loop\<close>

lemma boxes_loop_truncate:
  assumes "\<And>st. process_box F env k st = Inr None" "k < n" "box \<le> k"
  shows "boxes_loop F env n box st = boxes_loop F env k box st"
  using assms(3)
proof (induction "k - box" arbitrary: box st)
  case 0
  then have "box = k" by simp
  then show ?case using assms(1,2) by (simp)
next
  case (Suc d)
  then have lt: "box < k" "box < n" using assms(2) by auto
  show ?case
  proof (cases "process_box F env box st")
    case (Inl e)
    then show ?thesis using lt by simp
  next
    case (Inr r)
    show ?thesis
    proof (cases r)
      case None
      then show ?thesis using Inr lt by simp
    next
      case (Some st')
      have "boxes_loop F env n (box + 1) st' = boxes_loop F env k (box + 1) st'"
        using Suc.hyps(1)[of "box + 1" st'] Suc.hyps(2) lt by simp
      then show ?thesis using Inr Some lt by simp
    qed
  qed
qed

lemma boxes_loop_same_rows:
  assumes "take (k * BOX_DESCRIPTION_SIZE env) D' = take (k * BOX_DESCRIPTION_SIZE env) (do_data env)"
    and "7 \<le> BOX_DESCRIPTION_SIZE env"
  shows "boxes_loop F (env\<lparr>do_data := D'\<rparr>) k box st = boxes_loop F env k box st"
proof (induction "k - box" arbitrary: box st)
  case 0
  then show ?case by simp
next
  case (Suc d)
  then have lt: "box < k" by simp
  have row: "process_box F (env\<lparr>do_data := D'\<rparr>) box st = process_box F env box st"
  proof (rule process_box_same_row)
    fix i :: nat assume "i < 7"
    then have "box * BOX_DESCRIPTION_SIZE env + i < Suc box * BOX_DESCRIPTION_SIZE env"
      using assms(2) by simp
    also have "\<dots> \<le> k * BOX_DESCRIPTION_SIZE env"
      using lt by (intro mult_le_mono1) simp
    finally show "rd D' (box * BOX_DESCRIPTION_SIZE env + i) = rd (do_data env) (box * BOX_DESCRIPTION_SIZE env + i)"
      using rd_take_eq [OF assms(1)] by blast
  qed
  have "boxes_loop F (env\<lparr>do_data := D'\<rparr>) k (box + 1) st' = boxes_loop F env k (box + 1) st'" for st'
    using Suc.hyps(1)[of "box + 1" st'] Suc.hyps(2) by simp
  then show ?case using lt row
    by (simp split: sum.split option.split)
qed

lemma boxes_loop_invariant:
  assumes "P st"
    and "\<And>box st st'. P st \<Longrightarrow> process_box F env box st = Inr (Some st') \<Longrightarrow> P st'"
  shows "P (snd (snd (boxes_loop F env n box st)))"
  using assms
proof (induction F env n box st rule: boxes_loop.induct)
  case (1 F env n box st)
  show ?case
  proof (cases "box < n")
    case False
    then show ?thesis using "1.prems"(1) by simp
  next
    case True
    show ?thesis
    proof (cases "process_box F env box st")
      case (Inl e)
      then show ?thesis using True "1.prems"(1) by simp
    next
      case (Inr r)
      show ?thesis
      proof (cases r)
        case None
        then show ?thesis using True Inr "1.prems"(1) by simp
      next
        case (Some st')
        have "P st'" using "1.prems" Inr Some by blast
        then have "P (snd (snd (boxes_loop F env n (box + 1) st')))"
          using "1.IH" [OF True Inr Some] "1.prems"(2) by blast
        then show ?thesis using True Inr Some by simp
      qed
    qed
  qed
qed

lemma boxes_loop_resume:
  assumes "boxes_loop F env k box st = (None, k, st')" "box \<le> k" "k \<le> n"
  shows "boxes_loop F env n box st = boxes_loop F env n k st'"
  using assms(1,2)
proof (induction "k - box" arbitrary: box st)
  case 0
  then show ?case by simp
next
  case (Suc d)
  then have lt: "box < k" "box < n" using assms(3) by auto
  show ?case
  proof (cases "process_box F env box st")
    case (Inl e)
    then show ?thesis using lt Suc.prems(1) by simp
  next
    case (Inr r)
    show ?thesis
    proof (cases r)
      case None
      then show ?thesis using Inr lt Suc.prems(1) by simp
    next
      case (Some st'')
      have "boxes_loop F env k (box + 1) st'' = (None, k, st')"
        using Suc.prems(1) lt Inr Some by simp
      then have "boxes_loop F env n (box + 1) st'' = boxes_loop F env n k st'"
        using Suc.hyps(1)[of "box + 1" st''] Suc.hyps(2) lt by simp
      then show ?thesis using Inr Some lt by simp
    qed
  qed
qed

lemma overlays_batch_in_range:
  assumes "netBatchSize env < 2 ^ 31"
  shows "\<forall>ov \<in> set (overlays (snd (snd (boxes_loop F env n box \<lparr>class_color = [], overlays = []\<rparr>)))).
           ov_batch ov < netBatchSize env"
proof (rule boxes_loop_invariant)
  show "\<forall>ov\<in>set (overlays \<lparr>class_color = [], overlays = []\<rparr>). ov_batch ov < netBatchSize env"
    by simp
next
  fix box st st'
  assume inv: "\<forall>ov\<in>set (overlays st). ov_batch ov < netBatchSize env"
    and step: "process_box F env box st = Inr (Some st')"
  show "\<forall>ov\<in>set (overlays st'). ov_batch ov < netBatchSize env"
    using process_box_Some [OF step] inv size_t_to_int_small [OF assms] by auto
qed

subsection \<open>A negative batch index ends the decoding\<close>

text \<open>
  C4. If row \<open>k\<close> of the detection output has a batch index below zero, the decoder does
  exactly what the loop over rows \<open>0, \<dots>, k - 1\<close> alone does: rows \<open>k, k + 1, \<dots>\<close> add no
  overlay, assign no colour and raise no error. The contents of those rows play no role:
  any tensor that agrees with the given one up to the batch index of row \<open>k\<close> is decoded
  to the same result (the rows having the seven columns the loop reads).
\<close>

theorem C4_negative_batch_ends_decoding:
  assumes "k < BOXES env" and "row_batch F env k = Inr b" and "b < 0"
  shows "decode F env = boxes_loop F env k 0 \<lparr>class_color = [], overlays = []\<rparr>
       \<and> (7 \<le> BOX_DESCRIPTION_SIZE env \<longrightarrow>
            (\<forall>D'. take (k * BOX_DESCRIPTION_SIZE env + 1) D'
                    = take (k * BOX_DESCRIPTION_SIZE env + 1) (do_data env) \<longrightarrow>
                  decode F (env\<lparr>do_data := D'\<rparr>) = decode F env))"
proof -
  have trunc: "decode F e = boxes_loop F e k 0 \<lparr>class_color = [], overlays = []\<rparr>"
    if "k < BOXES e" "row_batch F e k = Inr b" for e :: "'a decoder_env"
    unfolding decode_def
    by (rule boxes_loop_truncate) (use that assms(3) in \<open>auto intro: process_box_break\<close>)
  have 1: "decode F env = boxes_loop F env k 0 \<lparr>class_color = [], overlays = []\<rparr>"
    using trunc assms by blast
  have 2: "decode F (env\<lparr>do_data := D'\<rparr>) = decode F env"
    if s: "7 \<le> BOX_DESCRIPTION_SIZE env"
      and eq: "take (k * BOX_DESCRIPTION_SIZE env + 1) D' = take (k * BOX_DESCRIPTION_SIZE env + 1) (do_data env)"
    for D'
  proof -
    have "rd D' (k * BOX_DESCRIPTION_SIZE env) = rd (do_data env) (k * BOX_DESCRIPTION_SIZE env)"
      using rd_take_eq [OF eq] by simp
    then have "row_batch F (env\<lparr>do_data := D'\<rparr>) k = Inr b"
      using assms(2) by (simp add: row_batch_def)
    then have "decode F (env\<lparr>do_data := D'\<rparr>)
        = boxes_loop F (env\<lparr>do_data := D'\<rparr>) k 0 \<lparr>class_color = [], overlays = []\<rparr>"
      using trunc [of "env\<lparr>do_data := D'\<rparr>"] assms(1) by simp
    moreover have "take (k * BOX_DESCRIPTION_SIZE env) D' = take (k * BOX_DESCRIPTION_SIZE env) (do_data env)"
      using arg_cong [OF eq, of "take (k * BOX_DESCRIPTION_SIZE env)"] by (simp add: min_def)
    ultimately show ?thesis
      using boxes_loop_same_rows [OF _ s] 1 by simp
  qed
  show ?thesis using 1 2 by blast
qed

theorem C4_negative_batch_witness:
  "4 < BOXES example_env
   \<and> row_batch exact_ops example_env 4 = Inr (- 1)
   \<and> decode exact_ops example_env
       = boxes_loop exact_ops example_env 4 0 \<lparr>class_color = [], overlays = []\<rparr>
   \<and> decode exact_ops (example_env\<lparr>do_data := take 29 (do_data example_env) @ [0, 1, 2, 3]\<rparr>)
       = decode exact_ops example_env"
proof -
  have h1: "4 < BOXES example_env"
    by (simp add: example_env_def)
  have h2: "row_batch exact_ops example_env 4 = Inr (- 1)"
    by (simp add: example_env_def row_batch_def exact_ops_def bnd_def rd_def defined_def)
  have h3: "(- 1 :: int) < 0"
    by simp
  have h4: "7 \<le> BOX_DESCRIPTION_SIZE example_env"
    by (simp add: example_env_def)
  have h5: "take (4 * BOX_DESCRIPTION_SIZE example_env + 1)
               (take 29 (do_data example_env) @ [0, 1, 2, 3])
          = take (4 * BOX_DESCRIPTION_SIZE example_env + 1) (do_data example_env)"
    by (simp add: example_env_def)
  show ?thesis
    using C4_negative_batch_ends_decoding [OF h1 h2 h3] h1 h2 h4 h5 by blast
qed

subsection \<open>A batch index beyond the batch size is fatal\<close>

text \<open>
  C5. If the loop reaches row \<open>k\<close> (the rows before it were processed without a
  \<open>break\<close> or an exception) and the batch index of row \<open>k\<close> is at least the batch size of
  the network, the decoding ends with the \<open>std::logic_error\<close> "Invalid batch ID within
  detection output box"; the overlays are those of the rows before \<open>k\<close>, every one of
  them on an image below the batch size; and the entry point, the command line having
  been accepted and the steps of \<open>main\<close> before the loop having succeeded, logs the
  error and exits with code 1.
\<close>

theorem C5_invalid_batch_is_fatal:
  assumes "k < BOXES env" and "netBatchSize env < 2 ^ 31"
    and "boxes_loop F env k 0 \<lparr>class_color = [], overlays = []\<rparr> = (None, k, st)"
    and "row_batch F env k = Inr b" and "int (netBatchSize env) \<le> b"
  shows "decode F env = (Some (LogicError ''Invalid batch ID within detection output box''), k, st)
       \<and> (\<forall>ov \<in> set (overlays st). ov_batch ov < netBatchSize env)
       \<and> (\<not> FLAGS_h fl \<and> FLAGS_i fl \<noteq> [] \<and> FLAGS_m fl \<noteq> [] \<longrightarrow>
            main fl (postprocess F env)
              = ([Err (LogicError ''Invalid batch ID within detection output box'')], Some 1))"
proof -
  have "process_box F env k st
      = Inl (LogicError ''Invalid batch ID within detection output box'')"
    using assms(2,4,5) by (intro process_box_invalid_batch [of F env k b]) (simp_all add: size_t_to_int_small)
  then have "boxes_loop F env (BOXES env) k st
      = (Some (LogicError ''Invalid batch ID within detection output box''), k, st)"
    using assms(1) by simp
  then have 1: "decode F env
      = (Some (LogicError ''Invalid batch ID within detection output box''), k, st)"
    using boxes_loop_resume [OF assms(3), of "BOXES env"] assms(1) by (simp add: decode_def)
  have 2: "\<forall>ov \<in> set (overlays st). ov_batch ov < netBatchSize env"
    using overlays_batch_in_range [OF assms(2), of F k 0] assms(3) by simp
  have 3: "main fl (postprocess F env)
      = ([Err (LogicError ''Invalid batch ID within detection output box'')], Some 1)"
    if "\<not> FLAGS_h fl" "FLAGS_i fl \<noteq> []" "FLAGS_m fl \<noteq> []"
    using that 1 by (simp add: main_def ParseAndCheckCommandLine_def handlers_def postprocess_def)
  show ?thesis using 1 2 3 by blast
qed

theorem C5_invalid_batch_witness:
  "1 < BOXES example_invalid_batch
   \<and> row_batch exact_ops example_invalid_batch 1 = Inr 3
   \<and> int (netBatchSize example_invalid_batch) \<le> 3
   \<and> decode exact_ops example_invalid_batch
       = (Some (LogicError ''Invalid batch ID within detection output box''), 1,
          \<lparr>class_color = [(1, 0)],
           overlays = [\<lparr>ov_batch = 0, ov_class = 1, ov_color_index = 0,
                        ov_color = (128, 64, 128), ov_mask = 0,
                        ov_roi = (30, 30, 120, 120)\<rparr>]\<rparr>)
   \<and> main \<lparr>FLAGS_h = False, FLAGS_i = ''image.png'', FLAGS_m = ''model.xml''\<rparr>
         (postprocess exact_ops example_invalid_batch)
       = ([Err (LogicError ''Invalid batch ID within detection output box'')], Some 1)"
proof -
  have h1: "1 < BOXES example_invalid_batch"
    by (simp add: example_invalid_batch_def)
  have h2: "netBatchSize example_invalid_batch < 2 ^ 31"
    by (simp add: example_invalid_batch_def)
  have h3: "boxes_loop exact_ops example_invalid_batch 1 0 \<lparr>class_color = [], overlays = []\<rparr>
      = (None, 1,
          \<lparr>class_color = [(1, 0)],
           overlays = [\<lparr>ov_batch = 0, ov_class = 1, ov_color_index = 0,
                        ov_color = (128, 64, 128), ov_mask = 0,
                        ov_roi = (30, 30, 120, 120)\<rparr>]\<rparr>)"
    by (simp add: example_invalid_batch_def process_box_def exact_ops_def bnd_def rd_def
        defined_def fmin_def fmax_def size_t_to_int_def emplace_def mask_arr_def
        mask_offset_def box_stride_def size_t_def size_t_sub_def roi_of_def)
  have h4: "row_batch exact_ops example_invalid_batch 1 = Inr 3"
    by (simp add: example_invalid_batch_def row_batch_def exact_ops_def bnd_def rd_def
        defined_def)
  have h5: "int (netBatchSize example_invalid_batch) \<le> 3"
    by (simp add: example_invalid_batch_def)
  show ?thesis
    using C5_invalid_batch_is_fatal [OF h1 h2 h3 h4 h5,
        of "\<lparr>FLAGS_h = False, FLAGS_i = ''image.png'', FLAGS_m = ''model.xml''\<rparr>"]
      h1 h4 h5
    by simp
qed

subsection \<open>Colours by first-seen order of the classes\<close>

lemma first_seen_append_old:
  "c \<in> set cls \<Longrightarrow> first_seen (cls @ ys) c = first_seen cls c"
  by (simp add: first_seen_def takeWhile_append1)

lemma first_seen_append_new:
  "c \<notin> set cls \<Longrightarrow> first_seen (cls @ [c]) c = card (set cls)"
proof -
  assume "c \<notin> set cls"
  then have "takeWhile (\<lambda>x. x \<noteq> c) (cls @ [c]) = cls"
    by (subst takeWhile_append2) auto
  then show ?thesis by (simp add: first_seen_def length_remdups_card_conv)
qed

lemma color_inv_step:
  assumes inv: "color_inv palette st"
  shows "color_inv palette
     \<lparr>class_color = fst (emplace c (length (class_color st)) (class_color st)),
      overlays = overlays st @
        [\<lparr>ov_batch = b, ov_class = c,
          ov_color_index = snd (emplace c (length (class_color st)) (class_color st)),
          ov_color = palette ! (snd (emplace c (length (class_color st)) (class_color st)) mod length palette),
          ov_mask = m, ov_roi = r\<rparr>]\<rparr>"
    (is "color_inv palette ?st'")
proof -
  let ?cc = "class_color st" and ?cls = "classes st"
  have d: "distinct (map fst ?cc)" and s: "map snd ?cc = [0..<length ?cc]"
    and dom: "set (map fst ?cc) = set ?cls"
    and idx: "\<And>a i. (a, i) \<in> set ?cc \<Longrightarrow> i = first_seen ?cls a"
    and ovs: "\<And>ov. ov \<in> set (overlays st) \<Longrightarrow> (ov_class ov, ov_color_index ov) \<in> set ?cc
                 \<and> ov_color ov = palette ! (ov_color_index ov mod length palette)"
    using inv by (auto simp: color_inv_def)
  have seen: "a \<in> set ?cls" if "(a, i) \<in> set ?cc" for a i
    using that dom by force
  have cls': "classes ?st' = ?cls @ [c]"
    by (simp add: classes_def)
  show ?thesis
  proof (cases "map_of ?cc c")
    case None
    then have new: "c \<notin> set ?cls"
      using dom by (simp add: map_of_eq_None_iff)
    have len: "length ?cc = card (set ?cls)"
      using d dom distinct_card [of "map fst ?cc"] by simp
    have em: "emplace c (length ?cc) ?cc = (?cc @ [(c, length ?cc)], length ?cc)"
      using None by (simp add: emplace_def)
    have "distinct (map fst (?cc @ [(c, length ?cc)]))"
      using d new dom by simp
    moreover have "map snd (?cc @ [(c, length ?cc)]) = [0..<length (?cc @ [(c, length ?cc)])]"
      using s by simp
    moreover have "set (map fst (?cc @ [(c, length ?cc)])) = set (?cls @ [c])"
      using dom by simp
    moreover have "i = first_seen (?cls @ [c]) a" if "(a, i) \<in> set (?cc @ [(c, length ?cc)])" for a i
      using that idx seen new len by (auto simp: first_seen_append_old first_seen_append_new)
    moreover have "(ov_class ov, ov_color_index ov) \<in> set (?cc @ [(c, length ?cc)])
        \<and> ov_color ov = palette ! (ov_color_index ov mod length palette)"
      if "ov \<in> set (overlays ?st')" for ov
      using that ovs em by auto
    ultimately show ?thesis
      unfolding color_inv_def cls' by (simp add: em) blast
  next
    case (Some j)
    then have mem: "(c, j) \<in> set ?cc" by (rule map_of_SomeD)
    have em: "emplace c (length ?cc) ?cc = (?cc, j)"
      using Some by (simp add: emplace_def)
    have "set (map fst ?cc) = set (?cls @ [c])"
      using dom seen [OF mem] by auto
    moreover have "i = first_seen (?cls @ [c]) a" if "(a, i) \<in> set ?cc" for a i
      using that idx seen by (auto simp: first_seen_append_old)
    moreover have "(ov_class ov, ov_color_index ov) \<in> set ?cc
        \<and> ov_color ov = palette ! (ov_color_index ov mod length palette)"
      if "ov \<in> set (overlays ?st')" for ov
      using that ovs em mem by auto
    ultimately show ?thesis
      unfolding color_inv_def cls' using d s by (simp add: em) blast
  qed
qed

lemma color_inv_decode:
  "color_inv (CITYSCAPES_COLORS env) (snd (snd (decode F env)))"
  unfolding decode_def
proof (rule boxes_loop_invariant)
  show "color_inv (CITYSCAPES_COLORS env) \<lparr>class_color = [], overlays = []\<rparr>"
    by (simp add: color_inv_def classes_def)
next
  fix box st st'
  assume "color_inv (CITYSCAPES_COLORS env) st" "process_box F env box st = Inr (Some st')"
  then show "color_inv (CITYSCAPES_COLORS env) st'"
    using process_box_Some [of F env box st st'] color_inv_step [of "CITYSCAPES_COLORS env" st]
    by auto
qed

lemma color_inv_index:
  assumes "color_inv palette st" "ov \<in> set (overlays st)"
  shows "ov_color_index ov = first_seen (classes st) (ov_class ov)"
    and "ov_color ov = palette ! (ov_color_index ov mod length palette)"
    and "ov_color_index ov < length (remdups (classes st))"
proof -
  have mem: "(ov_class ov, ov_color_index ov) \<in> set (class_color st)"
    using assms by (simp add: color_inv_def)
  then show "ov_color_index ov = first_seen (classes st) (ov_class ov)"
    using assms(1) by (auto simp: color_inv_def)
  show "ov_color ov = palette ! (ov_color_index ov mod length palette)"
    using assms by (simp add: color_inv_def)
  have eq: "map snd (class_color st) = [0..<length (class_color st)]"
    using assms(1) by (simp add: color_inv_def)
  have "ov_color_index ov \<in> set (map snd (class_color st))"
    using mem by force
  then have "ov_color_index ov \<in> set [0..<length (class_color st)]"
    by (metis eq)
  then have "ov_color_index ov < length (class_color st)"
    by simp
  moreover have "length (class_color st) = length (remdups (classes st))"
    using assms(1) distinct_card [of "map fst (class_color st)"]
    by (simp add: color_inv_def length_remdups_card_conv)
  ultimately show "ov_color_index ov < length (remdups (classes st))" by simp
qed

lemma color_inv_injective:
  assumes "color_inv palette st" "o1 \<in> set (overlays st)" "o2 \<in> set (overlays st)"
    and "ov_color_index o1 = ov_color_index o2"
  shows "ov_class o1 = ov_class o2"
proof -
  have "distinct (map snd (class_color st))"
    using assms(1) by (simp add: color_inv_def)
  then have inj: "inj_on snd (set (class_color st))"
    by (simp add: distinct_map)
  have "(ov_class o1, ov_color_index o1) \<in> set (class_color st)"
    "(ov_class o2, ov_color_index o2) \<in> set (class_color st)"
    using assms(1-3) by (simp_all add: color_inv_def)
  then have "(ov_class o1, ov_color_index o1) = (ov_class o2, ov_color_index o2)"
    using assms(4) by (intro inj_onD [OF inj]) simp_all
  then show ?thesis by simp
qed

text \<open>
  C6. In every run of the decoder, whatever its outcome, each composited box carries the
  colour index that is the first-seen rank of its class and the palette entry at that
  index modulo the size \<open>N\<close> of the palette, so the class of rank \<open>N\<close> (the \<open>N + 1\<close>-th
  distinct class) gets entry 0 again. Two boxes of one class have the same colour; two
  boxes of different classes have different colour indices, and different colours when
  the palette has no repeated entry and there are no more distinct classes than entries.
\<close>

theorem C6_class_colors:
  "(let st = snd (snd (decode F env)); palette = CITYSCAPES_COLORS env in
      (\<forall>ov \<in> set (overlays st).
          ov_color_index ov = first_seen (classes st) (ov_class ov)
        \<and> ov_color ov = palette ! (first_seen (classes st) (ov_class ov) mod length palette)
        \<and> (first_seen (classes st) (ov_class ov) = length palette \<longrightarrow>
             ov_color ov = palette ! 0))
    \<and> (\<forall>o1 \<in> set (overlays st). \<forall>o2 \<in> set (overlays st).
          (ov_class o1 = ov_class o2 \<longrightarrow> ov_color o1 = ov_color o2)
        \<and> (ov_class o1 \<noteq> ov_class o2 \<longrightarrow> ov_color_index o1 \<noteq> ov_color_index o2)
        \<and> (ov_class o1 \<noteq> ov_class o2 \<and> distinct palette
             \<and> length (remdups (classes st)) \<le> length palette \<longrightarrow>
             ov_color o1 \<noteq> ov_color o2)))"
proof -
  define st where "st = snd (snd (decode F env))"
  define palette where "palette = CITYSCAPES_COLORS env"
  have inv: "color_inv palette st"
    unfolding st_def palette_def by (rule color_inv_decode)
  note idx = color_inv_index [OF inv]
  have a: "ov_color_index ov = first_seen (classes st) (ov_class ov)
          \<and> ov_color ov = palette ! (first_seen (classes st) (ov_class ov) mod length palette)
          \<and> (first_seen (classes st) (ov_class ov) = length palette \<longrightarrow>
               ov_color ov = palette ! 0)"
    if "ov \<in> set (overlays st)" for ov
    using idx(1,2) [OF that] by auto
  have b: "ov_color o1 = ov_color o2"
    if "o1 \<in> set (overlays st)" "o2 \<in> set (overlays st)" "ov_class o1 = ov_class o2"
    for o1 o2
    using idx(1,2) [OF that(1)] idx(1,2) [OF that(2)] that(3) by simp
  have c: "ov_color_index o1 \<noteq> ov_color_index o2"
    if "o1 \<in> set (overlays st)" "o2 \<in> set (overlays st)" "ov_class o1 \<noteq> ov_class o2"
    for o1 o2
    using color_inv_injective [OF inv that(1,2)] that(3) by blast
  have d: "ov_color o1 \<noteq> ov_color o2"
    if "o1 \<in> set (overlays st)" "o2 \<in> set (overlays st)" "ov_class o1 \<noteq> ov_class o2"
      "distinct palette" "length (remdups (classes st)) \<le> length palette" for o1 o2
  proof -
    have "ov_color_index o1 < length palette" "ov_color_index o2 < length palette"
      using idx(3) [OF that(1)] idx(3) [OF that(2)] that(5) by simp_all
    then show ?thesis
      using idx(2) [OF that(1)] idx(2) [OF that(2)] c [OF that(1-3)] that(4)
      by (simp add: nth_eq_iff_index_eq)
  qed
  have "(\<forall>ov \<in> set (overlays st).
          ov_color_index ov = first_seen (classes st) (ov_class ov)
        \<and> ov_color ov = palette ! (first_seen (classes st) (ov_class ov) mod length palette)
        \<and> (first_seen (classes st) (ov_class ov) = length palette \<longrightarrow>
             ov_color ov = palette ! 0))
    \<and> (\<forall>o1 \<in> set (overlays st). \<forall>o2 \<in> set (overlays st).
          (ov_class o1 = ov_class o2 \<longrightarrow> ov_color o1 = ov_color o2)
        \<and> (ov_class o1 \<noteq> ov_class o2 \<longrightarrow> ov_color_index o1 \<noteq> ov_color_index o2)
        \<and> (ov_class o1 \<noteq> ov_class o2 \<and> distinct palette
             \<and> length (remdups (classes st)) \<le> length palette \<longrightarrow>
             ov_color o1 \<noteq> ov_color o2))"
    using a b c d by blast
  then show ?thesis
    unfolding st_def palette_def Let_def .
qed

text \<open>
  On the example the classes 5, 3, 5 and 7 are composited in this order, on a palette of
  two colours: class 5 gets index 0 although 3 is the smaller class id, both boxes of
  class 5 get the first colour, class 3 the second, and class 7, the third distinct
  class, the first colour again.
\<close>

theorem C6_class_colors_witness:
  "map ov_class (overlays (snd (snd (decode exact_ops example_env)))) = [5, 3, 5, 7]
   \<and> map ov_color_index (overlays (snd (snd (decode exact_ops example_env)))) = [0, 1, 0, 2]
   \<and> map (first_seen [5, 3, 5, 7]) [5, 3, 5, 7] = [0, 1, 0, 2]
   \<and> map ov_color (overlays (snd (snd (decode exact_ops example_env))))
       = [(128, 64, 128), (232, 35, 244), (128, 64, 128), (128, 64, 128)]"
  using C6_class_colors [of exact_ops example_env]
  by (simp add: decode_def example_env_def process_box_def exact_ops_def bnd_def rd_def
      defined_def fmin_def fmax_def size_t_to_int_def emplace_def mask_arr_def
      mask_offset_def box_stride_def size_t_def size_t_sub_def roi_of_def first_seen_def)

subsection \<open>The mask slab of a box\<close>

lemma size_t_id: "n < 2 ^ 64 \<Longrightarrow> size_t n = n"
  by (simp add: size_t_def)

lemma size_t_sub_1: "1 \<le> c \<Longrightarrow> c < 2 ^ 64 \<Longrightarrow> size_t_sub c 1 = c - 1"
  by (simp add: size_t_sub_def mod_if)

lemma size_t_sub_0_1: "size_t_sub 0 1 = 2 ^ 64 - 1"
  by (simp add: size_t_sub_def)

lemma mask_offset_in_range:
  assumes "box < BOXES env" "1 \<le> c" "c \<le> masks_C env"
    and "BOXES env * masks_C env * masks_H env * masks_W env < 2 ^ 64"
  shows "mask_offset env box c
           = masks_W env * masks_H env * masks_C env * box + masks_H env * masks_W env * (c - 1)"
    and "mask_offset env box c + masks_H env * masks_W env
           \<le> BOXES env * masks_C env * masks_H env * masks_W env"
proof -
  define B C H W where "B = BOXES env" and "C = masks_C env" and "H = masks_H env" and "W = masks_W env"
  have tot: "B * C * H * W < 2 ^ 64" and box: "box < B" and c: "1 \<le> c" "c \<le> C"
    using assms by (simp_all add: B_def C_def H_def W_def)
  have off: "mask_offset env box c = W * H * C * box + H * W * (c - 1)"
  proof (cases "H * W = 0")
    case True
    then show ?thesis
      by (auto simp: mask_offset_def box_stride_def size_t_def B_def C_def H_def W_def)
  next
    case False
    then have hw: "1 \<le> H * W" by simp
    have B1: "1 \<le> B" using box by simp
    have C1: "1 \<le> C" using c by simp
    have "W * H * C * 1 \<le> W * H * C * B" using B1 by (intro mult_le_mono2)
    then have whc: "W * H * C \<le> B * C * H * W" by (simp add: mult_ac)
    have "(W * H) * 1 \<le> (W * H) * C" using C1 by (intro mult_le_mono2)
    then have wh: "W * H \<le> W * H * C" by simp
    have "W * H * C * box \<le> W * H * C * B" using box by (intro mult_le_mono2) simp
    then have whcb: "W * H * C * box \<le> B * C * H * W" by (simp add: mult_ac)
    have "1 * C \<le> (H * W) * C" using hw by (intro mult_le_mono1)
    then have "C \<le> W * H * C" by (simp add: mult_ac)
    then have Clt: "C < 2 ^ 64" using whc tot by linarith
    have "(H * W) * (c - 1) \<le> (H * W) * C" using c by (intro mult_le_mono2) simp
    then have hwc: "H * W * (c - 1) \<le> W * H * C" by (simp add: mult_ac)
    have s1: "size_t (W * H) = W * H" using wh whc tot by (intro size_t_id) linarith
    have s2: "size_t (W * H * C) = W * H * C" using whc tot by (intro size_t_id) linarith
    have s3: "size_t (W * H * C * box) = W * H * C * box" using whcb tot by (intro size_t_id) linarith
    have s4: "size_t_sub c 1 = c - 1" using c Clt by (intro size_t_sub_1) simp_all
    have s5: "size_t (H * W) = H * W" using s1 by (simp add: mult.commute)
    have s6: "size_t (H * W * (c - 1)) = H * W * (c - 1)" using hwc whc tot by (intro size_t_id) linarith
    show ?thesis
      unfolding mask_offset_def box_stride_def
      using s1 s2 s3 s4 s5 s6 by (simp add: B_def C_def H_def W_def)
  qed
  have "W * H * C * box + H * W * (c - 1) + H * W = H * W * (C * box + (c - 1) + 1)"
    by (simp add: algebra_simps)
  also have "\<dots> \<le> H * W * (C * box + C)"
    using c by (intro mult_le_mono2) simp
  also have "\<dots> = H * W * C * (box + 1)"
    by (simp add: algebra_simps)
  also have "\<dots> \<le> H * W * C * B"
    using box by (intro mult_le_mono2) simp
  finally have bound: "W * H * C * box + H * W * (c - 1) + H * W \<le> B * C * H * W"
    by (simp add: mult_ac)
  show "mask_offset env box c
           = masks_W env * masks_H env * masks_C env * box + masks_H env * masks_W env * (c - 1)"
    using off by (simp add: B_def C_def H_def W_def)
  show "mask_offset env box c + masks_H env * masks_W env
           \<le> BOXES env * masks_C env * masks_H env * masks_W env"
    using off bound by (simp add: B_def C_def H_def W_def)
qed

lemma mask_offset_class_0:
  assumes "0 < masks_H env * masks_W env" "masks_H env * masks_W env < 2 ^ 64"
  shows "mask_offset env box 0 + masks_H env * masks_W env \<ge> 2 ^ 64"
proof -
  define hw where "hw = masks_H env * masks_W env"
  have hw: "0 < hw" "hw < 2 ^ 64" using assms by (simp_all add: hw_def)
  have "hw * (2 ^ 64 - 1) = (hw - 1) * 2 ^ 64 + (2 ^ 64 - hw)"
    using hw by (simp add: algebra_simps)
  then have "(hw * (2 ^ 64 - 1)) mod 2 ^ 64 = (2 ^ 64 - hw) mod 2 ^ 64"
    by (metis mod_mult_self3)
  also have "\<dots> = 2 ^ 64 - hw" using hw by simp
  finally have "size_t (size_t hw * size_t_sub 0 1) = 2 ^ 64 - hw"
    using hw by (simp add: size_t_def size_t_sub_def)
  then show ?thesis
    using hw by (simp add: mask_offset_def hw_def)
qed

text \<open>
  C10. For a box of the masks tensor and a class id \<open>c\<close> with \<open>1 \<le> c \<le> C\<close>, the tensor
  fitting the address space, the slab the decoder reads starts at
  \<open>W * H * C * box + H * W * (c - 1)\<close>, no product wrapping around, and its \<open>H * W\<close>
  floats end inside the \<open>BOXES * C * H * W\<close> floats of the tensor. For class id 0 the
  \<open>size_t\<close> difference \<open>c - 1\<close> wraps to \<open>2^64 - 1\<close> and the slab lies outside the tensor:
  the read is undefined.
\<close>

theorem C10_mask_slab_bounds:
  "(box < BOXES env \<and> 1 \<le> c \<and> c \<le> masks_C env
      \<and> BOXES env * masks_C env * masks_H env * masks_W env < 2 ^ 64 \<longrightarrow>
      mask_arr env box c
        = Inr (masks_W env * masks_H env * masks_C env * box + masks_H env * masks_W env * (c - 1))
      \<and> masks_W env * masks_H env * masks_C env * box + masks_H env * masks_W env * (c - 1)
          + masks_H env * masks_W env
        \<le> BOXES env * masks_C env * masks_H env * masks_W env)
   \<and> size_t_sub 0 1 = 2 ^ 64 - 1
   \<and> (0 < masks_H env * masks_W env \<and> masks_H env * masks_W env < 2 ^ 64
      \<and> BOXES env * masks_C env * masks_H env * masks_W env < 2 ^ 64 \<longrightarrow>
      mask_arr env box 0 = Inl Undefined)"
proof -
  have 1: "mask_arr env box c
        = Inr (masks_W env * masks_H env * masks_C env * box + masks_H env * masks_W env * (c - 1))
      \<and> masks_W env * masks_H env * masks_C env * box + masks_H env * masks_W env * (c - 1)
          + masks_H env * masks_W env
        \<le> BOXES env * masks_C env * masks_H env * masks_W env"
    if "box < BOXES env" "1 \<le> c" "c \<le> masks_C env"
      "BOXES env * masks_C env * masks_H env * masks_W env < 2 ^ 64"
    using mask_offset_in_range [OF that] by (simp add: mask_arr_def)
  have 2: "mask_arr env box 0 = Inl Undefined"
    if "0 < masks_H env * masks_W env" "masks_H env * masks_W env < 2 ^ 64"
      "BOXES env * masks_C env * masks_H env * masks_W env < 2 ^ 64"
    using mask_offset_class_0 [OF that(1,2), of box] that(3) by (simp add: mask_arr_def)
  show ?thesis using 1 2 size_t_sub_0_1 by blast
qed

theorem C10_mask_slab_witness:
  "1 < BOXES example_env \<and> 3 \<le> masks_C example_env
   \<and> BOXES example_env * masks_C example_env * masks_H example_env * masks_W example_env = 168
   \<and> mask_arr example_env 1 3 = Inr 36
   \<and> mask_arr example_env 1 0 = Inl Undefined"
  using C10_mask_slab_bounds [of 1 example_env 3]
  by (simp add: example_env_def)

section \<open>Loading a network: results\<close>



text \<open>
  C8. A network with more than one input makes the constructor of \<open>VectorCNN\<close> fail with
  the \<open>std::runtime_error\<close> "Network should have only one input", so no object comes
  to exist; \<open>Load\<close> throws it before it has changed any member of the object, whose
  executable network and inference request stay as they were, and whatever
  \<open>LoadNetwork\<close> and \<open>CreateInferRequest\<close> would do.
\<close>

theorem C8_more_than_one_input:
  assumes "ReadNetwork (ie cfg) (path_to_model cfg) = Inr cnnNetwork"
    and "1 < length (inputsInfo cnnNetwork)"
  shows "VectorCNN cfg = Inl (RuntimeError ''Network should have only one input'')
       \<and> (\<forall>this. config this = cfg \<longrightarrow>
            Load this = (Some (RuntimeError ''Network should have only one input''), this))"
proof -
  have "length (inputsInfo (with_max_batch_size n cnnNetwork)) \<noteq> 1" for n
    using assms(2) by (simp add: with_max_batch_size_def setBatchSize_def Let_def)
  then have "Load this = (Some (RuntimeError ''Network should have only one input''), this)"
    if "config this = cfg" for this :: "('a, 'b) CnnDLSDKBase"
    using assms(1) that by (simp add: Load_def Let_def)
  then show ?thesis
    by (simp add: VectorCNN_def)
qed

theorem C8_more_than_one_input_witness:
  "VectorCNN (config (example_object example_core_two_inputs))
     = Inl (RuntimeError ''Network should have only one input'')
   \<and> Load (example_object example_core_two_inputs)
     = (Some (RuntimeError ''Network should have only one input''),
        example_object example_core_two_inputs)
   \<and> infer_request (snd (Load (example_object example_core_two_inputs))) = None"
proof -
  have h1: "ReadNetwork (ie (config (example_object example_core_two_inputs)))
        (path_to_model (config (example_object example_core_two_inputs)))
      = Inr \<lparr>batchSize = 1,
          inputsInfo = [(''data'', \<lparr>precision = UNSPECIFIED, layout = ANY\<rparr>),
                        (''im_info'', \<lparr>precision = UNSPECIFIED, layout = ANY\<rparr>)],
          outputsInfo = [(''fc'', \<lparr>precision = UNSPECIFIED, layout = ANY\<rparr>)]\<rparr>"
    by (simp add: example_object_def example_core_two_inputs_def example_core_def)
  have h2: "1 < length (inputsInfo \<lparr>batchSize = 1,
          inputsInfo = [(''data'', \<lparr>precision = UNSPECIFIED, layout = ANY\<rparr>),
                        (''im_info'', \<lparr>precision = UNSPECIFIED, layout = ANY\<rparr>)],
          outputsInfo = [(''fc'', \<lparr>precision = UNSPECIFIED, layout = ANY\<rparr>)]\<rparr>)"
    by simp
  show ?thesis
    using C8_more_than_one_input [OF h1 h2] by (simp add: example_object_def)
qed

section \<open>Batched inference: results\<close>

subsection \<open>The loop runs over the chunks\<close>

lemma chunks_Nil: "chunks n [] = []"
  by (simp add: chunks.simps)

lemma chunks_Cons:
  "0 < n \<Longrightarrow> xs \<noteq> [] \<Longrightarrow> chunks n xs = take n xs # chunks n (drop n xs)"
  by (subst chunks.simps) simp

lemma chunks_concat: "0 < n \<Longrightarrow> concat (chunks n xs) = xs"
proof (induction n xs rule: chunks.induct)
  case (1 n xs)
  show ?case
  proof (cases "xs = []")
    case True
    then show ?thesis by (simp add: chunks_Nil)
  next
    case False
    then show ?thesis using "1.prems" "1.IH" by (simp add: chunks_Cons)
  qed
qed

lemma chunks_sizes: "c \<in> set (chunks n xs) \<Longrightarrow> c \<noteq> [] \<and> length c \<le> n"
proof (induction n xs rule: chunks.induct)
  case (1 n xs)
  show ?case
  proof (cases "n = 0 \<or> xs = []")
    case True
    then show ?thesis using "1.prems" by (simp add: chunks.simps)
  next
    case False
    then have "c = take n xs \<or> c \<in> set (chunks n (drop n xs))"
      using "1.prems" by (subst (asm) chunks.simps) simp
    then show ?thesis using False "1.IH" by auto
  qed
qed

lemma fill_input_chunk:
  assumes "i + k \<le> length frames"
  shows "fill_input frames i k req
       = foldl (\<lambda>r (frame, b). matToBlob frame b r) req (zip (take k (drop i frames)) [0..<k])"
proof -
  have "zip (take k (drop i frames)) [0..<k] = map (\<lambda>b. (frames ! (i + b), b)) [0..<k]"
    using assms by (intro nth_equalityI) auto
  then show ?thesis
    by (simp add: fill_input_def foldl_map)
qed

lemma batch_body_chunk:
  assumes "i < length frames"
  shows "batch_body mb net names frames fetch bs i rs
       = (let req' = chunk_request mb net (take bs (drop i frames)) (fst rs) in
          case fetch (collect_blobs names req') (length (take bs (drop i frames))) (snd rs) of
            Inl e \<Rightarrow> Inl e
          | Inr s' \<Rightarrow> Inr (req', s'))"
proof -
  have len: "length (take bs (drop i frames)) = min bs (length frames - i)"
    by simp
  have "i + min bs (length frames - i) \<le> length frames"
    using assms by simp
  then have "fill_input frames i (min bs (length frames - i)) (fst rs)
      = foldl (\<lambda>r (frame, b). matToBlob frame b r) (fst rs)
          (zip (take (min bs (length frames - i)) (drop i frames)) [0..<min bs (length frames - i)])"
    by (rule fill_input_chunk)
  moreover have "take (min bs (length frames - i)) (drop i frames) = take bs (drop i frames)"
    by (simp add: min_def)
  ultimately show ?thesis
    unfolding batch_body_def chunk_request_def Let_def len by (simp cong: sum.case_cong)
qed

lemma batch_loop_chunks:
  assumes "0 < bs" "bs < 2 ^ 64" "length frames < 2 ^ 63"
  shows "i = 0 \<or> bs \<le> i \<Longrightarrow>
         batch_loop mb net names frames fetch bs i rs
           = Some (run_chunks mb net names fetch (chunks bs (drop i frames)) rs)"
proof (induction "length frames - i" arbitrary: i rs rule: less_induct)
  case less
  show ?case
  proof (cases "i < length frames")
    case False
    then show ?thesis
      by (subst batch_loop.simps) (simp add: chunks_Nil)
  next
    case True
    have nowrap: "i + bs < 2 ^ 64"
    proof (cases "i = 0")
      case True
      then show ?thesis using assms(2) by simp
    next
      case False
      then have "bs \<le> i" using less.prems by simp
      then have "i + bs \<le> 2 * i" by simp
      also have "\<dots> < 2 * 2 ^ 63" using True assms(3) by simp
      finally show ?thesis by simp
    qed
    then have next_i: "size_t (i + bs) = i + bs"
      by (simp add: size_t_def)
    have ch: "chunks bs (drop i frames)
        = take bs (drop i frames) # chunks bs (drop (i + bs) frames)"
      using True assms(1) by (subst chunks_Cons) (simp_all add: add.commute)
    have IH: "batch_loop mb net names frames fetch bs (i + bs) rs'
        = Some (run_chunks mb net names fetch (chunks bs (drop (i + bs) frames)) rs')" for rs'
      using True assms(1) by (intro less.hyps) auto
    show ?thesis
      by (subst batch_loop.simps)
        (simp add: True next_i IH ch batch_body_chunk [OF True] Let_def split: sum.split)
  qed
qed

lemma copy_frames:
  assumes "length c \<le> length (input req)"
  defines "req' \<equiv> foldl (\<lambda>r (frame, b). matToBlob frame b r) req (zip c [0..<length c])"
  shows "input req' = map Some c @ drop (length c) (input req)"
    and "cur_batch req' = cur_batch req"
    and "outputs req' = outputs req"
    and "calls req' = calls req @ map (\<lambda>(frame, b). Call_matToBlob frame b) (zip c [0..<length c])"
proof -
  have "input (foldl (\<lambda>r (frame, b). matToBlob frame b r) req (zip c [0..<length c]))
          = map Some c @ drop (length c) (input req)
      \<and> cur_batch (foldl (\<lambda>r (frame, b). matToBlob frame b r) req (zip c [0..<length c]))
          = cur_batch req
      \<and> outputs (foldl (\<lambda>r (frame, b). matToBlob frame b r) req (zip c [0..<length c]))
          = outputs req
      \<and> calls (foldl (\<lambda>r (frame, b). matToBlob frame b r) req (zip c [0..<length c]))
          = calls req @ map (\<lambda>(frame, b). Call_matToBlob frame b) (zip c [0..<length c])"
    using assms(1)
  proof (induction c rule: rev_induct)
    case Nil
    then show ?case by simp
  next
    case (snoc x c)
    then have le: "length c < length (input req)" by simp
    have z: "zip (c @ [x]) [0..<length (c @ [x])] = zip c [0..<length c] @ [(x, length c)]"
      by simp
    have upd: "(map Some c @ drop (length c) (input req))[length c := Some x]
        = map Some (c @ [x]) @ drop (Suc (length c)) (input req)"
      using le by (simp add: list_update_append Cons_nth_drop_Suc [symmetric])
    show ?case
      unfolding z foldl_append
      using snoc.IH le upd by (simp add: matToBlob_def)
  qed
  then show "input req' = map Some c @ drop (length c) (input req)"
    and "cur_batch req' = cur_batch req"
    and "outputs req' = outputs req"
    and "calls req' = calls req @ map (\<lambda>(frame, b). Call_matToBlob frame b) (zip c [0..<length c])"
    by (simp_all add: req'_def)
qed

lemma chunk_request_effect:
  assumes "length c \<le> length (input req)"
  shows "input (chunk_request mb net c req) = map Some c @ drop (length c) (input req)"
    and "length (input (chunk_request mb net c req)) = length (input req)"
    and "cur_batch (chunk_request mb net c req) = (if mb \<noteq> 1 then length c else cur_batch req)"
    and "outputs (chunk_request mb net c req)
           = net (map Some c @ drop (length c) (input req))
               (if mb \<noteq> 1 then length c else cur_batch req)"
    and "calls (chunk_request mb net c req) = calls req @ chunk_calls mb (cur_batch req) c"
  using copy_frames [OF assms] assms
  by (simp_all add: chunk_request_def chunk_calls_def Let_def SetBatch_def Infer_def)

lemma map_assign_keys: "fst ` set (map_assign k v m) = insert k (fst ` set m)"
  by (induction m) (force split: if_splits)+

lemma collect_blobs_keys:
  fixes req :: "('fr, 'b) InferRequest"
  shows "fst ` set (collect_blobs names req) = set names"
proof -
  have "fst ` set (foldl (\<lambda>blobs name. map_assign name (GetBlob req name) blobs) m names)
      = fst ` set m \<union> set names" for m :: "'b BlobMap"
    by (induction names arbitrary: m) (auto simp: map_assign_keys)
  then show ?thesis by (simp add: collect_blobs_def)
qed

lemma run_chunks_total:
  assumes "\<And>blobs k s. \<exists>s'. fetch blobs k s = Inr s'"
  shows "\<forall>c \<in> set cs. length c \<le> length (input req) \<Longrightarrow>
    \<exists>req' s'. run_chunks mb net names fetch cs (req, s) = Inr (req', s')
      \<and> length (input req') = length (input req)
      \<and> calls req' = calls req @ concat (map (chunk_calls mb (cur_batch req)) cs)"
proof (induction cs arbitrary: req s)
  case Nil
  then show ?case by simp
next
  case (Cons c cs)
  define r1 where "r1 = chunk_request mb net c req"
  have c: "length c \<le> length (input req)" using Cons.prems by simp
  note eff = chunk_request_effect [OF c, of mb net, folded r1_def]
  obtain s1 where s1: "fetch (collect_blobs names r1) (length c) s = Inr s1"
    using assms by blast
  have "\<forall>c \<in> set cs. length c \<le> length (input r1)"
    using Cons.prems eff(2) by simp
  from Cons.IH [OF this, of s1] obtain req' s' where
    run: "run_chunks mb net names fetch cs (r1, s1) = Inr (req', s')"
    and len: "length (input req') = length (input r1)"
    and calls: "calls req' = calls r1 @ concat (map (chunk_calls mb (cur_batch r1)) cs)"
    by blast
  have same: "chunk_calls mb (cur_batch r1) = chunk_calls mb (cur_batch req)"
    using eff(3) by (auto simp: chunk_calls_def fun_eq_iff)
  show ?case
    using run len calls [unfolded same] s1 eff(2,5)
    by (simp add: r1_def [symmetric] Let_def)
qed

lemma run_chunks_recorded:
  "\<exists>req' seen'. run_chunks mb net names record_results cs (req, seen) = Inr (req', seen')
      \<and> map snd seen' = map snd seen @ map length cs
      \<and> (\<forall>x \<in> set seen'. x \<in> set seen \<or> fst ` set (fst x) = set names)"
proof (induction cs arbitrary: req seen)
  case Nil
  then show ?case by simp
next
  case (Cons c cs)
  define r1 where "r1 = chunk_request mb net c req"
  define seen1 where "seen1 = seen @ [(collect_blobs names r1, length c)]"
  from Cons.IH [of r1 seen1] obtain req' seen' where
    run: "run_chunks mb net names record_results cs (r1, seen1) = Inr (req', seen')"
    and sizes: "map snd seen' = map snd seen1 @ map length cs"
    and keys: "\<forall>x \<in> set seen'. x \<in> set seen1 \<or> fst ` set (fst x) = set names"
    by blast
  have "x \<in> set seen \<or> fst ` set (fst x) = set names" if "x \<in> set seen'" for x
  proof (cases "x \<in> set seen1")
    case True
    then have "x \<in> set seen \<or> x = (collect_blobs names r1, length c)"
      by (auto simp: seen1_def)
    moreover have "fst ` set (fst (collect_blobs names r1, length c)) = set names"
      using collect_blobs_keys [of names r1] by simp
    ultimately show ?thesis by metis
  next
    case False
    then show ?thesis using keys that by blast
  qed
  then have "\<forall>x \<in> set seen'. x \<in> set seen \<or> fst ` set (fst x) = set names"
    by blast
  moreover have "run_chunks mb net names record_results (c # cs) (req, seen)
      = run_chunks mb net names record_results cs (r1, seen1)"
    by (simp add: r1_def seen1_def Let_def record_results_def)
  moreover have "map snd seen' = map snd seen @ map length (c # cs)"
    using sizes by (simp add: seen1_def)
  ultimately show ?case
    using run by metis
qed

lemma infer_batches_append: "infer_batches (xs @ ys) = infer_batches xs @ infer_batches ys"
  by (induction xs rule: infer_batches.induct) simp_all

lemma infer_batches_copies:
  "infer_batches (map (\<lambda>(frame, b). Call_matToBlob frame b) xs) = []"
  by (induction xs) auto

lemma infer_batches_chunk_calls:
  "infer_batches (chunk_calls mb n c) = [if mb \<noteq> 1 then length c else n]"
  by (simp add: chunk_calls_def infer_batches_append infer_batches_copies)

lemma infer_batches_chunks:
  "infer_batches (concat (map (chunk_calls mb n) cs)) = map (\<lambda>c. if mb \<noteq> 1 then length c else n) cs"
  by (induction cs) (simp_all add: infer_batches_append infer_batches_chunk_calls)

text \<open>
  C1. For a non-empty list of frames (shorter than \<open>2^63\<close>) and a batch size of at least
  one, \<open>InferBatch\<close> returns, and it does what running the chunks one after the other
  does: per chunk the frames are copied to the slots \<open>0, 1, \<dots>\<close>, one inference runs
  and the callback is invoked once, with the blobs of all output names and the size of
  the chunk; an exception of the callback ends the run. The chunks are consecutive pieces
  of the frames, none empty and none longer than the batch size, and together they are
  the frames: nothing is dropped and nothing copied twice. With the recording callback,
  the calls on the request are those of the chunks in order, the callback has been
  invoked once per chunk with its size, and each time the blobs were those of the output
  names.
\<close>

theorem C1_InferBatch_chunks:
  assumes "frames \<noteq> []" and "0 < length (input req)" and "length (input req) < 2 ^ 64"
    and "length frames < 2 ^ 63"
  shows "InferBatch mb net names frames fetch (req, s)
           = Some (run_chunks mb net names fetch (chunks (length (input req)) frames) (req, s))
       \<and> concat (chunks (length (input req)) frames) = frames
       \<and> (\<forall>c \<in> set (chunks (length (input req)) frames). c \<noteq> [] \<and> length c \<le> length (input req))
       \<and> (\<exists>req' seen.
             InferBatch mb net names frames record_results (req, []) = Some (Inr (req', seen))
           \<and> calls req' = calls req
               @ concat (map (chunk_calls mb (cur_batch req)) (chunks (length (input req)) frames))
           \<and> map snd seen = map length (chunks (length (input req)) frames)
           \<and> (\<forall>x \<in> set seen. fst ` set (fst x) = set names))"
proof -
  let ?cs = "chunks (length (input req)) frames"
  have loop: "InferBatch mb net names frames fetch (req, s)
      = Some (run_chunks mb net names fetch ?cs (req, s))"
    using batch_loop_chunks [OF assms(2,3,4), of 0 mb net names fetch "(req, s)"]
    by (simp add: InferBatch_def)
  have loop': "InferBatch mb net names frames record_results (req, [])
      = Some (run_chunks mb net names record_results ?cs (req, []))"
    using batch_loop_chunks [OF assms(2,3,4), of 0 mb net names record_results "(req, [])"]
    by (simp add: InferBatch_def)
  have sizes: "\<forall>c \<in> set ?cs. c \<noteq> [] \<and> length c \<le> length (input req)"
    using chunks_sizes by blast
  obtain req' seen where
    run: "run_chunks mb net names record_results ?cs (req, []) = Inr (req', seen)"
    and n: "map snd seen = map length ?cs"
    and keys: "\<forall>x \<in> set seen. fst ` set (fst x) = set names"
    using run_chunks_recorded [of mb net names ?cs req "[]"] by auto
  have tot: "\<exists>s'. record_results blobs k t = Inr s'"
    for blobs :: "'b BlobMap" and k t
    by (simp add: record_results_def)
  have le: "\<forall>c \<in> set ?cs. length c \<le> length (input req)"
    using sizes by blast
  have "\<exists>r s'. run_chunks mb net names record_results ?cs (req, []) = Inr (r, s')
      \<and> length (input r) = length (input req)
      \<and> calls r = calls req @ concat (map (chunk_calls mb (cur_batch req)) ?cs)"
    by (rule run_chunks_total) (use tot le in auto)
  then have calls: "calls req' = calls req @ concat (map (chunk_calls mb (cur_batch req)) ?cs)"
    using run by auto
  show ?thesis
    using loop loop' chunks_concat [OF assms(2)] sizes run n keys calls by auto
qed

theorem C1_InferBatch_chunks_witness:
  "chunks 2 [10, 20, 30, 40, 50 :: nat] = [[10, 20], [30, 40], [50]]
   \<and> (\<exists>req'. InferBatch 2 example_net [''fc''] [10, 20, 30, 40, 50] record_results (example_request, [])
        = Some (Inr (req',
            [([(''fc'', [Some 10, Some 20])], 2),
             ([(''fc'', [Some 30, Some 40])], 2),
             ([(''fc'', [Some 50])], 1)]))
      \<and> calls req' =
          [Call_matToBlob 10 0, Call_matToBlob 20 1, Call_SetBatch 2, Call_Infer 2,
           Call_matToBlob 30 0, Call_matToBlob 40 1, Call_SetBatch 2, Call_Infer 2,
           Call_matToBlob 50 0, Call_SetBatch 1, Call_Infer 1])"
  using C1_InferBatch_chunks [of "[10, 20, 30, 40, 50]" example_request 2 example_net "[''fc'']"
      record_results "[]"]
  by (simp add: chunks.simps chunk_request_def matToBlob_def SetBatch_def Infer_def
      collect_blobs_def GetBlob_def record_results_def example_net_def example_request_def
      chunk_calls_def Let_def)

text \<open>
  C2. With a callback that does not throw, \<open>InferBatch\<close> runs the inference of every
  chunk under an active batch size that is the size of the chunk where \<open>max_batch_size\<close>
  is not 1, and the one found otherwise. So, the request starting at the full batch size,
  an inference runs under an active batch size below the batch size of the input blob
  exactly when its chunk is smaller than that batch size and \<open>max_batch_size\<close> is not 1.
  The next inference runs under the size of its own chunk again, and the input blob keeps
  its length. The calls behind this: where \<open>max_batch_size\<close> is not 1, \<open>SetBatch\<close> is
  called with the size of the chunk before every inference, full chunks included, and
  never otherwise.
\<close>

theorem C2_active_batch_size:
  assumes "0 < length (input req)" and "length (input req) < 2 ^ 64"
    and "length frames < 2 ^ 63"
    and "\<And>blobs k s. \<exists>s'. fetch blobs k s = Inr s'"
    and "mb = 1 \<longrightarrow> cur_batch req = length (input req)"
  shows "\<exists>req' s'.
           InferBatch mb net names frames fetch (req, s) = Some (Inr (req', s'))
         \<and> length (input req') = length (input req)
         \<and> calls req' = calls req
               @ concat (map (chunk_calls mb (cur_batch req)) (chunks (length (input req)) frames))
         \<and> infer_batches (calls req')
             = infer_batches (calls req)
               @ map (\<lambda>c. if mb \<noteq> 1 then length c else cur_batch req)
                   (chunks (length (input req)) frames)
         \<and> (\<forall>c \<in> set (chunks (length (input req)) frames).
               ((if mb \<noteq> 1 then length c else cur_batch req) < length (input req))
                 = (length c < length (input req) \<and> mb \<noteq> 1))"
proof -
  let ?cs = "chunks (length (input req)) frames"
  have loop: "InferBatch mb net names frames fetch (req, s)
      = Some (run_chunks mb net names fetch ?cs (req, s))"
    using batch_loop_chunks [OF assms(1,2,3), of 0 mb net names fetch "(req, s)"]
    by (simp add: InferBatch_def)
  have sizes: "\<forall>c \<in> set ?cs. length c \<le> length (input req)"
    using chunks_sizes by blast
  have "\<exists>req' s'. run_chunks mb net names fetch ?cs (req, s) = Inr (req', s')
      \<and> length (input req') = length (input req)
      \<and> calls req' = calls req @ concat (map (chunk_calls mb (cur_batch req)) ?cs)"
    by (rule run_chunks_total) (use assms(4) sizes in auto)
  then obtain req' s' where
    run: "run_chunks mb net names fetch ?cs (req, s) = Inr (req', s')"
    and len: "length (input req') = length (input req)"
    and calls: "calls req' = calls req @ concat (map (chunk_calls mb (cur_batch req)) ?cs)"
    by blast
  have "infer_batches (calls req')
      = infer_batches (calls req) @ map (\<lambda>c. if mb \<noteq> 1 then length c else cur_batch req) ?cs"
    using calls by (simp add: infer_batches_append infer_batches_chunks)
  moreover have "\<forall>c \<in> set ?cs.
      ((if mb \<noteq> 1 then length c else cur_batch req) < length (input req))
        = (length c < length (input req) \<and> mb \<noteq> 1)"
    using assms(5) by auto
  ultimately show ?thesis
    using loop run len calls by auto
qed

theorem C2_active_batch_size_witness:
  "\<exists>req' seen. InferBatch 2 example_net [''fc''] [10, 20, 30, 40, 50] record_results (example_request, [])
        = Some (Inr (req', seen))
      \<and> length (input req') = 2
      \<and> calls req' =
          [Call_matToBlob 10 0, Call_matToBlob 20 1, Call_SetBatch 2, Call_Infer 2,
           Call_matToBlob 30 0, Call_matToBlob 40 1, Call_SetBatch 2, Call_Infer 2,
           Call_matToBlob 50 0, Call_SetBatch 1, Call_Infer 1]
      \<and> infer_batches (calls req') = [2, 2, 1]"
proof -
  have h1: "0 < length (input example_request)"
    and h2: "length (input example_request) < 2 ^ 64"
    and h3: "length [10, 20, 30, 40, 50 :: nat] < 2 ^ 63"
    and h5: "(2 :: int) = 1 \<longrightarrow> cur_batch example_request = length (input example_request)"
    by (simp_all add: example_request_def)
  have h4: "\<exists>s'. record_results blobs k s = Inr s'"
    for blobs :: "nat option list BlobMap" and k s
    by (simp add: record_results_def)
  have c: "chunks (length (input example_request)) [10, 20, 30, 40, 50 :: nat]
      = [[10, 20], [30, 40], [50]]"
    by (simp add: example_request_def chunks.simps)
  note r = C2_active_batch_size [of example_request "[10, 20, 30, 40, 50]" record_results 2
      example_net "[''fc'']" "[]", OF h1 h2 h3 h4 h5]
  from r show ?thesis
    unfolding c by (auto simp: example_request_def chunk_calls_def)
qed

subsection \<open>A batch size of zero\<close>

text \<open>
  The hypothesis on the batch size is needed: with an input blob of batch size zero,
  \<open>batch_i\<close> never advances and the loop does not return.
\<close>

lemma batch_body_total:
  assumes "\<And>blobs k s. \<exists>s'. fetch blobs k s = Inr s'"
  shows "\<exists>rs'. batch_body mb net names frames fetch bs i rs = Inr rs'"
proof -
  obtain s' where "fetch (collect_blobs names (Infer net
      (if mb \<noteq> 1 then SetBatch (min bs (length frames - i))
         (fill_input frames i (min bs (length frames - i)) (fst rs))
       else fill_input frames i (min bs (length frames - i)) (fst rs))))
      (min bs (length frames - i)) (snd rs) = Inr s'"
    using assms by blast
  then show ?thesis
    by (simp add: batch_body_def Let_def)
qed

lemma batch_loop_zero_batch_size:
  assumes "\<And>blobs k s. \<exists>s'. fetch blobs k s = Inr s'" and "length frames < 2 ^ 64"
    and "batch_i < length frames"
  shows "batch_loop mb net names frames fetch 0 batch_i rs = None"
proof -
  have never: "\<not> (bs = 0 \<and> i < length frames \<and> length frames < 2 ^ 64
          \<and> (\<forall>blobs k s. \<exists>s'. fetch blobs k s = Inr s'))"
    if "batch_loop mb net names frames fetch bs i rs = Some y" for bs i rs y
    apply (rule batch_loop.raw_induct
      [where P = "\<lambda>mb net names frames fetch bs i rs y.
         \<not> (bs = 0 \<and> i < length frames \<and> length frames < 2 ^ 64
            \<and> (\<forall>blobs k s. \<exists>s'. fetch blobs k s = Inr s'))", OF _ that])
    subgoal premises p for f mb net names frames fetch bs i rs y
    proof
      assume a: "bs = 0 \<and> i < length frames \<and> length frames < 2 ^ 64
            \<and> (\<forall>blobs k s. \<exists>s'. fetch blobs k s = Inr s')"
      then obtain rs' where b: "batch_body mb net names frames fetch bs i rs = Inr rs'"
        using batch_body_total [of fetch mb net names frames bs i rs] by blast
      have "size_t (i + bs) = i" using a by (simp add: size_t_def)
      then have "f mb net names frames fetch bs i rs' = Some y"
        using p(2) a b by simp
      then show False using p(1) a by blast
    qed
    done
  show ?thesis
  proof (cases "batch_loop mb net names frames fetch 0 batch_i rs")
    case None
    then show ?thesis .
  next
    case (Some y)
    then show ?thesis using never [OF Some] assms by blast
  qed
qed

theorem InferBatch_zero_batch_size_diverges:
  assumes "\<And>blobs k s. \<exists>s'. fetch blobs k s = Inr s'" and "length frames < 2 ^ 64"
    and "frames \<noteq> []" and "input req = []"
  shows "InferBatch mb net names frames fetch (req, s) = None"
proof -
  have "0 < length frames" using assms(3) by simp
  then have "batch_loop mb net names frames fetch 0 0 (req, s) = None"
    by (rule batch_loop_zero_batch_size [OF assms(1,2)])
  then show ?thesis using assms(4) by (simp add: InferBatch_def)
qed

theorem InferBatch_zero_batch_size_witness:
  "InferBatch 2 example_net [''fc''] [10, 20, 30] record_results
     (example_request\<lparr>input := []\<rparr>, []) = None"
proof -
  have h: "\<exists>s'. record_results blobs k s = Inr s'"
    for blobs :: "nat option list BlobMap" and k s
    by (simp add: record_results_def)
  show ?thesis
    by (rule InferBatch_zero_batch_size_diverges [OF h]) simp_all
qed

section \<open>Embedding vectors: results\<close>

lemma bnd_simps [simp]:
  "bnd (Inl e) k = Inl e" "bnd (Inr x) k = k x"
  by (simp_all add: bnd_def)
















end
